theory Spec2Isabelle
  imports Main
begin

unbundle bit_operations_syntax

section \<open>GPIO aggregator: data model\<close>

text \<open>
  Shallow embedding of \<^verbatim>\<open>drivers/gpio/gpio-aggregator.c\<close> and
  \<^verbatim>\<open>include/linux/gpio/forwarder.h\<close>. C functions return \<^verbatim>\<open>int\<close> codes
  (0 or a negated errno); the model keeps them as \<^typ>\<open>int\<close>. The errno values are the
  ones of \<^verbatim>\<open>errno-base.h\<close>.
\<close>

definition ENOENT :: int where "ENOENT = 2"
definition ENOMEM :: int where "ENOMEM = 12"
definition EEXIST :: int where "EEXIST = 17"
definition ENODEV :: int where "ENODEV = 19"
definition EINVAL :: int where "EINVAL = 22"

text \<open>
  A line handle (\<^verbatim>\<open>struct gpio_desc\<close>) is owned by gpiolib; the forwarder only asks
  it whether it may sleep and whether it is active-low. A \<^verbatim>\<open>struct gpio_desc *\<close> is a
  \<^typ>\<open>'a option\<close>, with \<^term>\<open>None\<close> for \<^verbatim>\<open>NULL\<close>.
\<close>

record gpio_desc =
  desc_gpio :: nat
  desc_can_sleep :: bool
  desc_active_low :: bool

definition gpiod_cansleep :: "gpio_desc \<Rightarrow> bool" where
  \<comment> \<open>Modelled from the spec: \<^verbatim>\<open>LineHandle.may_block() -> bool\<close> of the line provider.\<close>
  "gpiod_cansleep d = desc_can_sleep d"

definition gpiod_is_active_low :: "gpio_desc \<Rightarrow> bool" where
  \<comment> \<open>Modelled from the spec: \<^verbatim>\<open>LineHandle.active_low() -> bool\<close> of the line provider.\<close>
  "gpiod_is_active_low d = desc_active_low d"

text \<open>The fields of \<^verbatim>\<open>struct gpio_chip\<close> that the forwarder reads and writes.\<close>

record gpio_chip =
  ngpio :: nat
  can_sleep :: bool

record gpiochip_fwd_timing =
  ramp_up_us :: nat
  ramp_down_us :: nat

text \<open>
  The anonymous union of \<^verbatim>\<open>mlock\<close> and \<^verbatim>\<open>slock\<close>: which member has been
  initialised, if any.
\<close>

datatype fwd_lock = Lock_Uninit | Mutex_Init | Spinlock_Init

text \<open>
  A bitmap (\<^verbatim>\<open>unsigned long *\<close>) is the set of the numbers of its set bits.
  \<^verbatim>\<open>tmp[]\<close> holds two regions that the macros \<^verbatim>\<open>fwd_tmp_values\<close> and
  \<^verbatim>\<open>fwd_tmp_descs\<close> keep apart: a value bitmap and an array of \<^verbatim>\<open>ngpio\<close>
  descriptor pointers.
\<close>

type_synonym bitmap = "nat set"

record gpiochip_fwd =
  chip :: gpio_chip
  descs :: "gpio_desc option list"
  lock :: fwd_lock
  delay_timings :: "gpiochip_fwd_timing list option"
  tmp_values :: bitmap
  tmp_descs :: "gpio_desc option list"

definition test_bit :: "nat \<Rightarrow> bitmap \<Rightarrow> bool" where
  \<comment> \<open>Modelled from the spec: the bit helpers of the kernel read and write one position
      of a bitset.\<close>
  "test_bit nr addr = (nr \<in> addr)"

definition assign_bit :: "nat \<Rightarrow> bitmap \<Rightarrow> bool \<Rightarrow> bitmap" where
  "assign_bit nr addr v = (if v then insert nr addr else addr - {nr})"

definition bitmap_clear :: "bitmap \<Rightarrow> nat \<Rightarrow> nat \<Rightarrow> bitmap" where
  "bitmap_clear m start nbits = m - {start..<start + nbits}"

definition for_each_set_bit :: "bitmap \<Rightarrow> nat \<Rightarrow> nat list" where
  \<comment> \<open>Modelled from the spec: the selected positions below \<open>nbits\<close>, in ascending
      order, which is the order the loop macro visits them in.\<close>
  "for_each_set_bit addr nbits = filter (\<lambda>i. i \<in> addr) [0..<nbits]"

section \<open>Forwarder construction\<close>

definition devm_gpio_fwd_alloc :: "bool \<Rightarrow> bool \<Rightarrow> nat \<Rightarrow> int + gpiochip_fwd" where
  \<comment> \<open>the two flags say whether \<^verbatim>\<open>devm_kzalloc\<close> and \<^verbatim>\<open>devm_kcalloc\<close> succeed\<close>
  "devm_gpio_fwd_alloc kzalloc_ok kcalloc_ok ngpios =
     (if \<not> kzalloc_ok then Inl (- ENOMEM)
      else if \<not> kcalloc_ok then Inl (- ENOMEM)
      else Inr \<lparr> chip = \<lparr> ngpio = ngpios, can_sleep = False \<rparr>,
                 descs = replicate ngpios None,
                 lock = Lock_Uninit,
                 delay_timings = None,
                 tmp_values = {},
                 tmp_descs = replicate ngpios None \<rparr>)"

text \<open>
  \<^verbatim>\<open>devm_gpio_fwd_alloc\<close> gives \<^verbatim>\<open>descs\<close> and the descriptor region of
  \<^verbatim>\<open>tmp[]\<close> the \<^verbatim>\<open>ngpio\<close> slots that the loops over the lines index; the
  properties of those loops state the two lengths as hypotheses.

  \<^verbatim>\<open>gpio_fwd_add_gpio_desc\<close>. The result \<^term>\<open>None\<close> stands for an access to
  \<^verbatim>\<open>fwd->descs[offset]\<close> outside the \<^verbatim>\<open>ngpio\<close> slots the array was allocated
  with, which C leaves undefined.
\<close>

definition gpio_fwd_add_gpio_desc ::
    "gpiochip_fwd \<Rightarrow> gpio_desc \<Rightarrow> nat \<Rightarrow> (int \<times> gpiochip_fwd) option" where
  "gpio_fwd_add_gpio_desc fwd desc offset =
     (if offset > ngpio (chip fwd) then Some (- EINVAL, fwd)
      else if \<not> offset < length (descs fwd) then None
      else if descs fwd ! offset \<noteq> None then Some (- EEXIST, fwd)
      else
        let fwd1 = (if gpiod_cansleep desc
                    then fwd\<lparr>chip := (chip fwd)\<lparr>can_sleep := True\<rparr>\<rparr>
                    else fwd)
        in Some (0, fwd1\<lparr>descs := (descs fwd1)[offset := Some desc]\<rparr>))"

text \<open>
  \<^verbatim>\<open>gpio_fwd_register\<close>; the first argument is what
  \<^verbatim>\<open>devm_gpiochip_add_data\<close> returns.
\<close>

definition gpio_fwd_register :: "int \<Rightarrow> gpiochip_fwd \<Rightarrow> int \<times> gpiochip_fwd" where
  "gpio_fwd_register add_data_res fwd =
     (let ndescs = fold (\<lambda>i nd. if descs fwd ! i \<noteq> None then nd + 1 else nd)
                     [0..<ngpio (chip fwd)] (0::nat);
          fwd1 = (if ndescs \<noteq> ngpio (chip fwd)
                  then fwd\<lparr>chip := (chip fwd)\<lparr>can_sleep := True\<rparr>\<rparr>
                  else fwd);
          fwd2 = (if can_sleep (chip fwd1)
                  then fwd1\<lparr>lock := Mutex_Init\<rparr>
                  else fwd1\<lparr>lock := Spinlock_Init\<rparr>)
      in (add_data_res, fwd2))"

text \<open>
  The states a caller of the exported API can build: allocate, then call
  \<^verbatim>\<open>gpio_fwd_add_gpio_desc\<close> any number of times. The list holds the handles whose
  call returned 0, last first.
\<close>

inductive fwd_built :: "nat \<Rightarrow> gpiochip_fwd \<Rightarrow> gpio_desc list \<Rightarrow> bool" where
  built_alloc: "devm_gpio_fwd_alloc True True n = Inr fwd \<Longrightarrow> fwd_built n fwd []"
| built_added: "fwd_built n fwd ds \<Longrightarrow> gpio_fwd_add_gpio_desc fwd d off = Some (0, fwd')
     \<Longrightarrow> fwd_built n fwd' (d # ds)"
| built_refused: "fwd_built n fwd ds \<Longrightarrow> gpio_fwd_add_gpio_desc fwd d off = Some (e, fwd')
     \<Longrightarrow> e \<noteq> 0 \<Longrightarrow> fwd_built n fwd' ds"

text \<open>
  \<^verbatim>\<open>gpio_fwd_setup_delay_line\<close> (the \<^verbatim>\<open>CONFIG_OF_GPIO\<close> variant) and
  \<^verbatim>\<open>gpio_fwd_delay_of_xlate\<close>. The flag says whether \<^verbatim>\<open>devm_kcalloc\<close>
  succeeds; \<open>gpiospec\<close> is the argument list of the phandle, and
  \<^verbatim>\<open>of_gpio_n_cells\<close> is the 3 that the setup stores.
\<close>

definition gpio_fwd_setup_delay_line :: "bool \<Rightarrow> gpiochip_fwd \<Rightarrow> int \<times> gpiochip_fwd" where
  "gpio_fwd_setup_delay_line kcalloc_ok fwd =
     (if \<not> kcalloc_ok then (- ENOMEM, fwd)
      else (0, fwd\<lparr>delay_timings :=
                  Some (replicate (ngpio (chip fwd)) \<lparr>ramp_up_us = 0, ramp_down_us = 0\<rparr>)\<rparr>))"

definition gpio_fwd_delay_of_xlate :: "gpiochip_fwd \<Rightarrow> nat list \<Rightarrow> (int \<times> gpiochip_fwd) option" where
  "gpio_fwd_delay_of_xlate fwd gpiospec =
     (if length gpiospec \<noteq> 3 then Some (- EINVAL, fwd)
      else
        let line = gpiospec ! 0 in
        if line \<ge> ngpio (chip fwd) then Some (- EINVAL, fwd)
        else (case delay_timings fwd of
                None \<Rightarrow> None
              | Some timings \<Rightarrow>
                  if \<not> line < length timings then None
                  else Some (int line,
                    fwd\<lparr>delay_timings := Some (timings[line :=
                      \<lparr>ramp_up_us = gpiospec ! 1, ramp_down_us = gpiospec ! 2\<rparr>])\<rparr>)))"

text \<open>
  \<^verbatim>\<open>gpio_fwd_create\<close>. What the environment decides is collected in a record: whether
  each allocation succeeds and what \<^verbatim>\<open>devm_gpiochip_add_data\<close> returns. The result
  \<^term>\<open>None\<close> is an access outside an array or through an invalid pointer:
  \<^verbatim>\<open>devm_gpio_fwd_alloc\<close> reports a failure as an \<^verbatim>\<open>ERR_PTR\<close>, which the test
  \<^verbatim>\<open>!fwd\<close> lets through to the code that dereferences it.
\<close>

record probe_env =
  descs_kmalloc_ok :: bool
  fwd_kzalloc_ok :: bool
  fwd_kcalloc_ok :: bool
  delay_kcalloc_ok :: bool
  gpiochip_add_data :: int

definition FWD_FEATURE_DELAY :: nat where
  "FWD_FEATURE_DELAY = 1"

fun gpio_fwd_create_loop ::
    "gpiochip_fwd \<Rightarrow> gpio_desc list \<Rightarrow> nat list \<Rightarrow> (int + gpiochip_fwd) option" where
  "gpio_fwd_create_loop fwd ds [] = Some (Inr fwd)"
| "gpio_fwd_create_loop fwd ds (i # is) =
     (if \<not> i < length ds then None
      else (case gpio_fwd_add_gpio_desc fwd (ds ! i) i of
              None \<Rightarrow> None
            | Some (error, fwd') \<Rightarrow>
                if error \<noteq> 0 then Some (Inl error) else gpio_fwd_create_loop fwd' ds is))"

definition gpio_fwd_create ::
    "probe_env \<Rightarrow> nat \<Rightarrow> gpio_desc list \<Rightarrow> nat \<Rightarrow> (int + gpiochip_fwd) option" where
  "gpio_fwd_create pe ngpios ds features =
     (case devm_gpio_fwd_alloc (fwd_kzalloc_ok pe) (fwd_kcalloc_ok pe) ngpios of
        Inl e \<Rightarrow> None
      | Inr fwd \<Rightarrow>
          (case gpio_fwd_create_loop fwd ds [0..<ngpios] of
             None \<Rightarrow> None
           | Some (Inl error) \<Rightarrow> Some (Inl error)
           | Some (Inr fwd1) \<Rightarrow>
               let r = (if features AND FWD_FEATURE_DELAY \<noteq> 0
                        then gpio_fwd_setup_delay_line (delay_kcalloc_ok pe) fwd1
                        else (0, fwd1))
               in if fst r \<noteq> 0 then Some (Inl (fst r))
                  else
                    let reg = gpio_fwd_register (gpiochip_add_data pe) (snd r)
                    in if fst reg \<noteq> 0 then Some (Inl (fst reg)) else Some (Inr (snd reg))))"

section \<open>Forwarder operations\<close>

text \<open>
  What the forwarder calls outside itself is recorded as a list of events, in call order.
  A descriptor array handed over with a count \<open>j\<close> is recorded as its first \<open>j\<close>
  entries, a value bitmap handed to a write as its first \<open>j\<close> bits.
\<close>

datatype event =
    Mutex_Lock
  | Mutex_Unlock
  | Spin_Lock_Irqsave
  | Spin_Unlock_Irqrestore
  | Get_Array_Value "gpio_desc option list"
  | Get_Array_Value_Cansleep "gpio_desc option list"
  | Set_Array_Value "gpio_desc option list" "bool list"
  | Set_Array_Value_Cansleep "gpio_desc option list" "bool list"
  | Set_Value "gpio_desc option" int
  | Set_Value_Cansleep "gpio_desc option" int
  | Fsleep nat
  | Udelay nat

text \<open>
  The batched reads of the line provider: from the count, the descriptors and the value
  bitmap passed in, to the return code and the value bitmap left behind.
\<close>

record provider =
  gpiod_get_array_value :: "nat \<Rightarrow> gpio_desc option list \<Rightarrow> bitmap \<Rightarrow> int \<times> bitmap"
  gpiod_get_array_value_cansleep :: "nat \<Rightarrow> gpio_desc option list \<Rightarrow> bitmap \<Rightarrow> int \<times> bitmap"

definition gpio_fwd_request :: "gpiochip_fwd \<Rightarrow> nat \<Rightarrow> int option" where
  "gpio_fwd_request fwd offset =
     (if \<not> offset < length (descs fwd) then None
      else Some (if descs fwd ! offset \<noteq> None then 0 else - ENODEV))"

definition gpio_fwd_get_multiple ::
    "provider \<Rightarrow> gpiochip_fwd \<Rightarrow> bitmap \<Rightarrow> bitmap \<Rightarrow> int \<times> gpiochip_fwd \<times> bitmap \<times> event list" where
  "gpio_fwd_get_multiple prov fwd msk bits =
     (let vals = bitmap_clear (tmp_values fwd) 0 (ngpio (chip fwd));
          packed = fold (\<lambda>i (ds, j). (ds[j := descs fwd ! i], j + 1))
                     (for_each_set_bit msk (ngpio (chip fwd))) (tmp_descs fwd, 0::nat);
          tdescs = fst packed;
          j = snd packed;
          res = (if can_sleep (chip fwd)
                 then gpiod_get_array_value_cansleep prov j (take j tdescs) vals
                 else gpiod_get_array_value prov j (take j tdescs) vals);
          ev = (if can_sleep (chip fwd)
                then Get_Array_Value_Cansleep (take j tdescs)
                else Get_Array_Value (take j tdescs));
          error = fst res;
          fwd' = fwd\<lparr>tmp_values := snd res, tmp_descs := tdescs\<rparr>
      in if error \<noteq> 0 then (error, fwd', bits, [ev])
         else (0, fwd',
               fst (fold (\<lambda>i (b, j). (assign_bit i b (test_bit j (snd res)), j + 1))
                      (for_each_set_bit msk (ngpio (chip fwd))) (bits, 0::nat)),
               [ev]))"

definition gpio_fwd_get_multiple_locked ::
    "provider \<Rightarrow> gpiochip_fwd \<Rightarrow> bitmap \<Rightarrow> bitmap \<Rightarrow> int \<times> gpiochip_fwd \<times> bitmap \<times> event list" where
  "gpio_fwd_get_multiple_locked prov fwd msk bits =
     (case gpio_fwd_get_multiple prov fwd msk bits of
        (error, fwd', bits', evs) \<Rightarrow>
          if can_sleep (chip fwd)
          then (error, fwd', bits', [Mutex_Lock] @ evs @ [Mutex_Unlock])
          else (error, fwd', bits', [Spin_Lock_Irqsave] @ evs @ [Spin_Unlock_Irqrestore]))"

text \<open>
  \<^verbatim>\<open>gpio_fwd_delay\<close> and \<^verbatim>\<open>gpio_fwd_set\<close> return the events of the call;
  \<^term>\<open>None\<close> is an access outside \<^verbatim>\<open>descs\<close> or \<^verbatim>\<open>delay_timings\<close>.
  A \<^verbatim>\<open>NULL\<close> descriptor has no polarity.
\<close>

definition gpio_fwd_delay :: "gpiochip_fwd \<Rightarrow> nat \<Rightarrow> int \<Rightarrow> event list option" where
  "gpio_fwd_delay fwd offset v =
     (case delay_timings fwd of
        None \<Rightarrow> None
      | Some timings \<Rightarrow>
          if \<not> offset < length (descs fwd) \<or> \<not> offset < length timings then None
          else
            let is_active_low = (case descs fwd ! offset of
                                   None \<Rightarrow> False | Some d \<Rightarrow> gpiod_is_active_low d);
                delay_us = (if (\<not> is_active_low \<and> v \<noteq> 0) \<or> (is_active_low \<and> \<not> v \<noteq> 0)
                            then ramp_up_us (timings ! offset)
                            else ramp_down_us (timings ! offset))
            in if delay_us = 0 then Some []
               else if can_sleep (chip fwd) then Some [Fsleep delay_us]
               else Some [Udelay delay_us])"

definition gpio_fwd_set :: "gpiochip_fwd \<Rightarrow> nat \<Rightarrow> int \<Rightarrow> event list option" where
  "gpio_fwd_set fwd offset v =
     (if \<not> offset < length (descs fwd) then None
      else
        let ev = (if can_sleep (chip fwd)
                  then Set_Value_Cansleep (descs fwd ! offset) v
                  else Set_Value (descs fwd ! offset) v)
        in if delay_timings fwd \<noteq> None
           then (case gpio_fwd_delay fwd offset v of
                   None \<Rightarrow> None
                 | Some evs \<Rightarrow> Some (ev # evs))
           else Some [ev])"

definition gpio_fwd_set_multiple ::
    "gpiochip_fwd \<Rightarrow> bitmap \<Rightarrow> bitmap \<Rightarrow> gpiochip_fwd \<times> event list" where
  "gpio_fwd_set_multiple fwd msk bits =
     (let packed = fold (\<lambda>i (vals, ds, j).
                           (assign_bit j vals (test_bit i bits), ds[j := descs fwd ! i], j + 1))
                     (for_each_set_bit msk (ngpio (chip fwd)))
                     (tmp_values fwd, tmp_descs fwd, 0::nat);
          vals = fst packed;
          tdescs = fst (snd packed);
          j = snd (snd packed);
          ev = (if can_sleep (chip fwd)
                then Set_Array_Value_Cansleep (take j tdescs) (map (\<lambda>k. test_bit k vals) [0..<j])
                else Set_Array_Value (take j tdescs) (map (\<lambda>k. test_bit k vals) [0..<j]))
      in (fwd\<lparr>tmp_values := vals, tmp_descs := tdescs\<rparr>, [ev]))"

definition gpio_fwd_set_multiple_locked ::
    "gpiochip_fwd \<Rightarrow> bitmap \<Rightarrow> bitmap \<Rightarrow> gpiochip_fwd \<times> event list" where
  "gpio_fwd_set_multiple_locked fwd msk bits =
     (case gpio_fwd_set_multiple fwd msk bits of
        (fwd', evs) \<Rightarrow>
          if can_sleep (chip fwd)
          then (fwd', [Mutex_Lock] @ evs @ [Mutex_Unlock])
          else (fwd', [Spin_Lock_Irqsave] @ evs @ [Spin_Unlock_Irqrestore]))"

definition is_delay :: "event \<Rightarrow> bool" where
  "is_delay e = (case e of Fsleep _ \<Rightarrow> True | Udelay _ \<Rightarrow> True | _ \<Rightarrow> False)"

section \<open>Request parser\<close>

text \<open>
  The string helpers of the kernel library are not part of these sources; they follow the
  grammar of the specification (space-separated tokens; a list expression is a
  comma-separated set of integers and integer ranges).
\<close>

definition isspace :: "char \<Rightarrow> bool" where
  "isspace c = (c = CHR '' '' \<or> c = CHR 0x09 \<or> c = CHR 0x0A \<or> c = CHR 0x0B
                \<or> c = CHR 0x0C \<or> c = CHR 0x0D)"

definition isdigit :: "char \<Rightarrow> bool" where
  "isdigit c = (c = CHR ''0'' \<or> c = CHR ''1'' \<or> c = CHR ''2'' \<or> c = CHR ''3'' \<or> c = CHR ''4''
                \<or> c = CHR ''5'' \<or> c = CHR ''6'' \<or> c = CHR ''7'' \<or> c = CHR ''8'' \<or> c = CHR ''9'')"

definition skip_spaces :: "string \<Rightarrow> string" where
  \<comment> \<open>Modelled from the spec: tokens are separated by spaces; leading spaces are dropped.\<close>
  "skip_spaces str = dropWhile isspace str"

definition next_arg :: "string \<Rightarrow> string \<times> string" where
  \<comment> \<open>Modelled from the spec: the request is a string of space-separated tokens.
      Returns the token at the head of \<open>args\<close> and the text after it, spaces skipped.\<close>
  "next_arg args = (takeWhile (\<lambda>c. \<not> isspace c) args,
                    skip_spaces (dropWhile (\<lambda>c. \<not> isspace c) args))"

definition digit_val :: "char \<Rightarrow> nat" where
  "digit_val c = of_char c - 48"

definition strtoul :: "string \<Rightarrow> nat" where
  "strtoul ds = foldl (\<lambda>a c. 10 * a + digit_val c) 0 ds"

fun split_commas :: "string \<Rightarrow> string list" where
  "split_commas [] = [[]]"
| "split_commas (c # cs) =
     (if c = CHR '','' then [] # split_commas cs
      else (c # hd (split_commas cs)) # tl (split_commas cs))"

definition parse_region :: "string \<Rightarrow> (nat \<times> nat) option" where
  \<comment> \<open>Modelled from the spec: one element of a list expression, an integer \<open>N\<close> or an
      integer range \<open>N-M\<close>.\<close>
  "parse_region r =
     (let a = takeWhile isdigit r; rest = dropWhile isdigit r in
      if a = [] then None
      else if rest = [] then Some (strtoul a, strtoul a)
      else if hd rest = CHR ''-'' \<and> tl rest \<noteq> [] \<and> list_all isdigit (tl rest)
           then Some (strtoul a, strtoul (tl rest))
      else None)"

definition join_commas :: "string list \<Rightarrow> string" where
  "join_commas rs = (case rs of [] \<Rightarrow> [] | r # rs' \<Rightarrow> r @ concat (map (\<lambda>x. CHR '','' # x) rs'))"

definition get_options :: "string \<Rightarrow> nat \<times> string" where
  \<comment> \<open>Modelled from the spec: a token is a list expression iff it parses entirely as
      integers/ranges. Returns the number of integers read from the head of \<open>str\<close> and
      the text left unread, which starts at the comma before the first element that is
      no integer or range (the caller passes no buffer for the integers).\<close>
  "get_options str =
     (let rs = split_commas str;
          good = takeWhile (\<lambda>r. parse_region r \<noteq> None) rs;
          bad = dropWhile (\<lambda>r. parse_region r \<noteq> None) rs
      in (sum_list (map (\<lambda>r. if list_all isdigit r then 1 else 2) good),
          if bad = [] then []
          else if good = [] then str
          else CHR '','' # join_commas bad))"

text \<open>
  What the environment decides: whether each allocation succeeds (\<open>krealloc_ok n\<close> for
  the call of \<^verbatim>\<open>aggr_add_gpio\<close> made with \<open>*n = n\<close>), what
  \<^verbatim>\<open>platform_device_register_simple\<close> returns (0, or a negated errno), and with
  which errno \<^verbatim>\<open>bitmap_parselist\<close> refuses a text: the specification speaks of a
  parse error and names no code, so the code is \<open>- (k + 1)\<close> for the \<open>k\<close> that
  \<open>parselist_errno\<close> gives, any negated errno.
\<close>

record env =
  try_module_get :: bool
  kzalloc_aggr_ok :: bool
  kzalloc_lookups_ok :: bool
  idr_alloc_ok :: bool
  kasprintf_ok :: bool
  bitmap_alloc_ok :: bool
  krealloc_ok :: "nat \<Rightarrow> bool"
  platform_device_register :: int
  parselist_errno :: "string \<Rightarrow> nat"

definition bitmap_parselist :: "env \<Rightarrow> string \<Rightarrow> nat \<Rightarrow> int \<times> bitmap" where
  \<comment> \<open>Modelled from the spec: a list expression expands to the set of its offsets; a
      malformed one is a parse error, and so is an offset outside the \<open>nmaskbits\<close>
      positions. The error returned is the negated errno of the environment.\<close>
  "bitmap_parselist e buf nmaskbits =
     (let rs = map parse_region (split_commas buf);
          error = - int (Suc (parselist_errno e buf))
      in if list_ex (\<lambda>r. r = None) rs then (error, {})
         else if list_ex (\<lambda>r. fst (the r) > snd (the r)) rs then (error, {})
         else if list_ex (\<lambda>r. snd (the r) \<ge> nmaskbits) rs then (error, {})
         else (0, \<Union> (set (map (\<lambda>r. {fst (the r)..snd (the r)}) rs))))"

definition AGGREGATOR_MAX_GPIOS :: nat where
  "AGGREGATOR_MAX_GPIOS = 512"

definition U16_MAX :: nat where
  "U16_MAX = 65535"

text \<open>
  A \<^verbatim>\<open>struct gpiod_lookup\<close> as \<^verbatim>\<open>GPIO_LOOKUP_IDX(key, hwnum, NULL, idx, 0)\<close>
  fills it. A lookup table is the list of its entries; the zeroed entry that ends the C
  array is the end of the list. \<^verbatim>\<open>dev_id\<close> is the name
  \<^verbatim>\<open>"<DRV_NAME>.<id>"\<close>, kept as the id.
\<close>

record gpiod_lookup =
  key :: string
  chip_hwnum :: nat
  idx :: nat

record gpiod_lookup_table =
  dev_id :: "nat option"
  table :: "gpiod_lookup list"

record gpio_aggregator =
  lookups :: gpiod_lookup_table
  pdev :: "nat option"
  args :: string

definition aggr_add_gpio ::
    "env \<Rightarrow> gpio_aggregator \<Rightarrow> string \<Rightarrow> nat \<Rightarrow> nat \<Rightarrow> int \<times> gpio_aggregator \<times> nat" where
  "aggr_add_gpio e aggr k hwnum n =
     (if \<not> krealloc_ok e n then (- ENOMEM, aggr, n)
      else (0,
            aggr\<lparr>lookups := (lookups aggr)\<lparr>table :=
              take n (table (lookups aggr)) @ [\<lparr>key = k, chip_hwnum = hwnum, idx = n\<rparr>]\<rparr>\<rparr>,
            n + 1))"

text \<open>The \<^verbatim>\<open>for_each_set_bit\<close> loop of \<^verbatim>\<open>aggr_parse\<close>, which returns at the first error.\<close>

fun aggr_add_gpios ::
    "env \<Rightarrow> gpio_aggregator \<Rightarrow> string \<Rightarrow> nat list \<Rightarrow> nat \<Rightarrow> int \<times> gpio_aggregator \<times> nat" where
  "aggr_add_gpios e aggr name [] n = (0, aggr, n)"
| "aggr_add_gpios e aggr name (i # is) n =
     (case aggr_add_gpio e aggr name i n of
        (error, aggr', n') \<Rightarrow>
          if error \<noteq> 0 then (error, aggr', n') else aggr_add_gpios e aggr' name is n')"

text \<open>The \<^verbatim>\<open>while (*args)\<close> loop of \<^verbatim>\<open>aggr_parse\<close>.\<close>

function aggr_parse_loop ::
    "env \<Rightarrow> gpio_aggregator \<Rightarrow> string \<Rightarrow> string \<Rightarrow> nat \<Rightarrow> int \<times> gpio_aggregator \<times> nat" where
  "aggr_parse_loop e aggr name args0 n =
     (if args0 = [] then (0, aggr, n)
      else
        let offsets = fst (next_arg args0);
            args1 = snd (next_arg args0);
            error = fst (get_options offsets);
            p = snd (get_options offsets)
        in if error = 0 \<or> p \<noteq> [] then
             (let r = aggr_add_gpio e aggr name U16_MAX n in
              if fst r \<noteq> 0 then r
              else aggr_parse_loop e (fst (snd r)) offsets args1 (snd (snd r)))
           else
             (let pl = bitmap_parselist e offsets AGGREGATOR_MAX_GPIOS in
              if fst pl \<noteq> 0 then (fst pl, aggr, n)
              else
                let r = aggr_add_gpios e aggr name
                          (for_each_set_bit (snd pl) AGGREGATOR_MAX_GPIOS) n
                in if fst r \<noteq> 0 then r
                   else aggr_parse_loop e (fst (snd r)) (fst (next_arg args1))
                          (snd (next_arg args1)) (snd (snd r))))"
  by pat_completeness auto
termination
proof (relation "measure (\<lambda>(e, aggr, name, args0, n). length args0)")
  show "wf (measure (\<lambda>(e, aggr, name, args0, n). length args0))" by simp
next
  fix e :: env and aggr :: gpio_aggregator and name args0 :: string and n :: nat
  assume "args0 \<noteq> []"
  then obtain c cs where c: "args0 = c # cs" by (cases args0) auto
  have "length (snd (next_arg args0)) < length args0"
  proof (cases "isspace c")
    case True
    then show ?thesis using c length_dropWhile_le[of isspace cs]
      by (simp add: next_arg_def skip_spaces_def)
  next
    case False
    have "length (dropWhile isspace (dropWhile (\<lambda>c. \<not> isspace c) cs)) \<le> length cs"
      using length_dropWhile_le[of isspace "dropWhile (\<lambda>c. \<not> isspace c) cs"]
            length_dropWhile_le[of "\<lambda>c. \<not> isspace c" cs] by linarith
    with False c show ?thesis by (simp add: next_arg_def skip_spaces_def)
  qed
  moreover have "length (snd (next_arg (snd (next_arg args0)))) \<le> length (snd (next_arg args0))"
    using length_dropWhile_le[of isspace "dropWhile (\<lambda>c. \<not> isspace c) (snd (next_arg args0))"]
          length_dropWhile_le[of "\<lambda>c. \<not> isspace c" "snd (next_arg args0)"]
    by (simp add: next_arg_def skip_spaces_def)
  ultimately show
    "\<And>x xa xb xc xd. x = fst (next_arg args0) \<Longrightarrow> xa = snd (next_arg args0) \<Longrightarrow>
       ((e, fst (snd xd), x, xa, snd (snd xd)), e, aggr, name, args0, n)
         \<in> measure (\<lambda>(e, aggr, name, args0, n). length args0)"
    and "\<And>x xa xb xc xd xe. x = fst (next_arg args0) \<Longrightarrow> xa = snd (next_arg args0) \<Longrightarrow>
       ((e, fst (snd xe), fst (next_arg xa), snd (next_arg xa), snd (snd xe)), e, aggr, name, args0, n)
         \<in> measure (\<lambda>(e, aggr, name, args0, n). length args0)"
    by auto
qed

definition aggr_parse :: "env \<Rightarrow> gpio_aggregator \<Rightarrow> int \<times> gpio_aggregator" where
  "aggr_parse e aggr =
     (let args0 = skip_spaces (args aggr) in
      if \<not> bitmap_alloc_ok e then (- ENOMEM, aggr)
      else
        let name = fst (next_arg args0);
            args1 = snd (next_arg args0);
            r = aggr_parse_loop e aggr name args1 0
        in if fst r \<noteq> 0 then (fst r, fst (snd r))
           else if snd (snd r) = 0 then (- EINVAL, fst (snd r))
           else (0, fst (snd r)))"

section \<open>Registry\<close>

text \<open>
  The global state \<^verbatim>\<open>new_device_store\<close> works on: the IDR (an association list from
  ids to the aggregators they point to), the GPIO lookup tables published with
  \<^verbatim>\<open>gpiod_add_lookup_table\<close> and the ids of the registered platform devices.
\<close>

record registry =
  gpio_aggregator_idr :: "(nat \<times> gpio_aggregator) list"
  gpio_lookup_list :: "gpiod_lookup_table list"
  platform_devices :: "nat list"

definition ENOSPC :: int where "ENOSPC = 28"

definition idr_alloc ::
    "bool \<Rightarrow> (nat \<times> 'a) list \<Rightarrow> 'a \<Rightarrow> int \<times> (nat \<times> 'a) list" where
  \<comment> \<open>Modelled from the spec: the id allocated is the smallest non-negative integer not
      currently in use.\<close>
  "idr_alloc ok idr ptr =
     (if \<not> ok then (- ENOMEM, idr)
      else (case find (\<lambda>i. i \<notin> set (map fst idr)) [0..<length idr + 1] of
              None \<Rightarrow> (- ENOSPC, idr)
            | Some i \<Rightarrow> (int i, (i, ptr) # idr)))"

definition idr_remove :: "(nat \<times> 'a) list \<Rightarrow> nat \<Rightarrow> (nat \<times> 'a) list" where
  \<comment> \<open>Modelled from the spec: the id is removed from the map and can be used again.\<close>
  "idr_remove idr i = filter (\<lambda>kv. fst kv \<noteq> i) idr"

text \<open>
  \<^verbatim>\<open>new_device_store\<close>: \<open>count\<close> is the length of \<open>buf\<close>. The IDR holds a pointer to
  \<open>aggr\<close>, so on success its entry is the aggregator as the function leaves it.
\<close>

definition new_device_store :: "env \<Rightarrow> registry \<Rightarrow> string \<Rightarrow> int \<times> registry" where
  "new_device_store e reg buf =
     (if \<not> try_module_get e then (- ENOENT, reg)
      else if \<not> kzalloc_aggr_ok e then (- ENOMEM, reg)
      else if \<not> kzalloc_lookups_ok e then (- ENOMEM, reg)
      else
        let aggr = \<lparr>lookups = \<lparr>dev_id = None, table = []\<rparr>, pdev = None, args = buf\<rparr>;
            al = idr_alloc (idr_alloc_ok e) (gpio_aggregator_idr reg) aggr;
            id = fst al
        in if id < 0 then (id, reg)
           else
             let removed = reg\<lparr>gpio_aggregator_idr := idr_remove (snd al) (nat id)\<rparr> in
             if \<not> kasprintf_ok e then (- ENOMEM, removed)
             else
               let aggr1 = aggr\<lparr>lookups := (lookups aggr)\<lparr>dev_id := Some (nat id)\<rparr>\<rparr>;
                   pr = aggr_parse e aggr1
               in if fst pr \<noteq> 0 then (fst pr, removed)
                  else if platform_device_register e < 0
                       then (platform_device_register e, removed)
                  else (int (length buf),
                        reg\<lparr>gpio_aggregator_idr :=
                              (nat id, (snd pr)\<lparr>pdev := Some (nat id)\<rparr>)
                                # gpio_aggregator_idr reg,
                            gpio_lookup_list := lookups (snd pr) # gpio_lookup_list reg,
                            platform_devices := nat id # platform_devices reg\<rparr>))"

section \<open>Platform device probe\<close>

text \<open>
  \<^verbatim>\<open>gpio_aggregator_probe\<close> on the device whose lookup table is \<open>t\<close>. The result
  \<^term>\<open>Inr fwd\<close> is a return of 0 with \<open>fwd\<close> as driver data. \<open>acquire\<close> is the line
  provider: the handle or the error it answers a lookup entry with.
\<close>

definition gpiod_count :: "gpiod_lookup_table \<Rightarrow> int" where
  \<comment> \<open>Modelled from the spec: one line handle is acquired per lookup entry.\<close>
  "gpiod_count t = int (length (table t))"

definition devm_gpiod_get_index ::
    "(gpiod_lookup \<Rightarrow> int + gpio_desc) \<Rightarrow> gpiod_lookup_table \<Rightarrow> nat \<Rightarrow> int + gpio_desc" where
  \<comment> \<open>Modelled from the spec: the position of a lookup entry is the forwarder's line
      index; index \<open>i\<close> resolves the entry of position \<open>i\<close> against the line provider.\<close>
  "devm_gpiod_get_index acquire t i =
     (case find (\<lambda>en. idx en = i) (table t) of
        None \<Rightarrow> Inl (- ENOENT)
      | Some en \<Rightarrow> acquire en)"

fun probe_get_descs ::
    "(gpiod_lookup \<Rightarrow> int + gpio_desc) \<Rightarrow> gpiod_lookup_table \<Rightarrow> nat list \<Rightarrow> int + gpio_desc list" where
  "probe_get_descs acquire t [] = Inr []"
| "probe_get_descs acquire t (i # is) =
     (case devm_gpiod_get_index acquire t i of
        Inl e \<Rightarrow> Inl e
      | Inr d \<Rightarrow> (case probe_get_descs acquire t is of
                    Inl e \<Rightarrow> Inl e
                  | Inr ds \<Rightarrow> Inr (d # ds)))"

definition gpio_aggregator_probe ::
    "probe_env \<Rightarrow> (gpiod_lookup \<Rightarrow> int + gpio_desc) \<Rightarrow> gpiod_lookup_table \<Rightarrow> nat
       \<Rightarrow> (int + gpiochip_fwd) option" where
  "gpio_aggregator_probe pe acquire t features =
     (let n = gpiod_count t in
      if n < 0 then Some (Inl n)
      else if \<not> descs_kmalloc_ok pe then Some (Inl (- ENOMEM))
      else (case probe_get_descs acquire t [0..<nat n] of
              Inl e \<Rightarrow> Some (Inl e)
            | Inr ds \<Rightarrow> gpio_fwd_create pe (nat n) ds features))"

section \<open>Vocabulary of the properties\<close>

text \<open>A token of the request: a non-empty run of characters that are not spaces.\<close>

definition is_token :: "string \<Rightarrow> bool" where
  "is_token t = (t \<noteq> [] \<and> list_all (\<lambda>c. \<not> isspace c) t)"

text \<open>
  In the words of the specification: a token is a list expression iff it parses entirely
  as integers/ranges.
\<close>

definition is_list_expression :: "string \<Rightarrow> bool" where
  "is_list_expression t = list_all (\<lambda>r. parse_region r \<noteq> None) (split_commas t)"

text \<open>An environment in which every allocation and registration succeeds.\<close>

definition env_ok :: env where
  "env_ok = \<lparr>try_module_get = True, kzalloc_aggr_ok = True, kzalloc_lookups_ok = True,
     idr_alloc_ok = True, kasprintf_ok = True, bitmap_alloc_ok = True,
     krealloc_ok = (\<lambda>_. True), platform_device_register = 0,
     parselist_errno = (\<lambda>_. 21)\<rparr>"

text \<open>Sample line handles, forwarders and providers for the instances below.\<close>

definition desc_a :: gpio_desc where
  "desc_a = \<lparr>desc_gpio = 10, desc_can_sleep = False, desc_active_low = False\<rparr>"
definition desc_b :: gpio_desc where
  "desc_b = \<lparr>desc_gpio = 11, desc_can_sleep = False, desc_active_low = True\<rparr>"

definition fwd_ab :: gpiochip_fwd where
  "fwd_ab = \<lparr>chip = \<lparr>ngpio = 2, can_sleep = False\<rparr>, descs = [Some desc_a, Some desc_b],
     lock = Lock_Uninit, delay_timings = None, tmp_values = {}, tmp_descs = [None, None]\<rparr>"

definition fwd_a_deferred :: gpiochip_fwd where
  "fwd_a_deferred = \<lparr>chip = \<lparr>ngpio = 2, can_sleep = False\<rparr>, descs = [Some desc_a, None],
     lock = Lock_Uninit, delay_timings = None, tmp_values = {}, tmp_descs = [None, None]\<rparr>"

definition fwd_abc :: gpiochip_fwd where
  "fwd_abc = \<lparr>chip = \<lparr>ngpio = 3, can_sleep = False\<rparr>,
     descs = [Some desc_a, Some desc_b, Some desc_a],
     lock = Spinlock_Init, delay_timings = None, tmp_values = {}, tmp_descs = [None, None, None]\<rparr>"

definition prov_const :: "int \<Rightarrow> bitmap \<Rightarrow> provider" where
  "prov_const rc vals = \<lparr>gpiod_get_array_value = (\<lambda>j ds v. (rc, vals)),
                          gpiod_get_array_value_cansleep = (\<lambda>j ds v. (rc, vals))\<rparr>"

definition fwd_ramp :: gpiochip_fwd where
  "fwd_ramp = \<lparr>chip = \<lparr>ngpio = 1, can_sleep = False\<rparr>, descs = [Some desc_a],
     lock = Spinlock_Init,
     delay_timings = Some [\<lparr>ramp_up_us = 0, ramp_down_us = 200\<rparr>],
     tmp_values = {}, tmp_descs = [None]\<rparr>"


definition probe_env_ok :: probe_env where
  "probe_env_ok = \<lparr>descs_kmalloc_ok = True, fwd_kzalloc_ok = True, fwd_kcalloc_ok = True,
     delay_kcalloc_ok = True, gpiochip_add_data = 0\<rparr>"

definition registry_empty :: registry where
  "registry_empty = \<lparr>gpio_aggregator_idr = [], gpio_lookup_list = [], platform_devices = []\<rparr>"


definition table_gpio0_gpio1 :: "gpiod_lookup list" where
  "table_gpio0_gpio1 =
     [\<lparr>key = ''gpio0'', chip_hwnum = 1, idx = 0\<rparr>, \<lparr>key = ''gpio0'', chip_hwnum = 3, idx = 1\<rparr>,
      \<lparr>key = ''gpio0'', chip_hwnum = 4, idx = 2\<rparr>, \<lparr>key = ''gpio1'', chip_hwnum = 2, idx = 3\<rparr>]"


section \<open>Auxiliary facts\<close>

subsection \<open>Bit loops and counting\<close>

lemma for_each_set_bit_set: "set (for_each_set_bit m n) = {i \<in> m. i < n}"
  by (auto simp: for_each_set_bit_def)

lemma for_each_set_bit_sorted: "sorted_wrt (<) (for_each_set_bit m n)"
  unfolding for_each_set_bit_def by (rule sorted_wrt_filter) simp

lemma for_each_set_bit_distinct: "distinct (for_each_set_bit m n)"
  by (simp add: for_each_set_bit_def)

lemma for_each_set_bit_length: "length (for_each_set_bit m n) \<le> n"
  using length_filter_le[of "\<lambda>i. i \<in> m" "[0..<n]"] by (simp add: for_each_set_bit_def)

lemma count_fold_filter:
  "fold (\<lambda>i nd. if xs ! i \<noteq> None then nd + 1 else nd) [0..<length xs] (k::nat)
     = k + length (filter (\<lambda>x. x \<noteq> None) xs)"
proof (induction xs arbitrary: k rule: rev_induct)
  case Nil
  then show ?case by simp
next
  case (snoc x xs)
  have "fold (\<lambda>i nd. if (xs @ [x]) ! i \<noteq> None then nd + 1 else nd) [0..<length xs] k
      = fold (\<lambda>i nd. if xs ! i \<noteq> None then nd + 1 else nd) [0..<length xs] k"
    by (rule fold_cong) (auto simp: nth_append)
  with snoc show ?case by (simp add: nth_append)
qed

subsection \<open>Tokens, list expressions and the parse loop\<close>

declare aggr_parse_loop.simps [simp del]

lemma next_arg_token:
  assumes "is_token t" and "r = [] \<or> isspace (hd r)"
  shows "next_arg (t @ r) = (t, skip_spaces r)"
proof -
  have ns: "\<forall>c\<in>set t. \<not> isspace c" using assms(1) by (simp add: is_token_def list_all_iff)
  have tw: "takeWhile (\<lambda>c. \<not> isspace c) r = []" using assms(2) by (cases r) auto
  have dw: "dropWhile (\<lambda>c. \<not> isspace c) r = r" using assms(2) by (cases r) auto
  have "takeWhile (\<lambda>c. \<not> isspace c) (t @ r) = t"
    using ns tw by (simp add: takeWhile_append2)
  moreover have "dropWhile (\<lambda>c. \<not> isspace c) (t @ r) = r"
    using ns dw by (simp add: dropWhile_append2)
  ultimately show ?thesis by (simp add: next_arg_def)
qed

lemma next_arg_Nil: "next_arg [] = ([], [])"
  by (simp add: next_arg_def skip_spaces_def)


lemma split_commas_not_Nil: "split_commas s \<noteq> []"
  by (cases s) auto

lemma get_options_list_expression:
  "(fst (get_options s) = 0 \<or> snd (get_options s) \<noteq> []) = (\<not> is_list_expression s)"
proof -
  define ok where "ok = (\<lambda>r. parse_region r \<noteq> None)"
  define rs where "rs = split_commas s"
  define good where "good = takeWhile ok rs"
  define bad where "bad = dropWhile ok rs"
  have rs: "rs \<noteq> []" by (simp add: rs_def split_commas_not_Nil)
  have go: "get_options s = (sum_list (map (\<lambda>r. if list_all isdigit r then 1 else 2) good),
          if bad = [] then [] else if good = [] then s else CHR '','' # join_commas bad)"
    unfolding get_options_def Let_def good_def bad_def ok_def rs_def by (rule refl)
  have cnt: "(sum_list (map (\<lambda>r. if list_all isdigit r then 1 else 2) good) = (0::nat)) = (good = [])"
    by (cases good) auto
  have le: "is_list_expression s = (bad = [])"
    by (auto simp: is_list_expression_def bad_def ok_def rs_def list_all_iff dropWhile_eq_Nil_conv)
  have gb: "good @ bad = rs" by (simp add: good_def bad_def)
  show ?thesis
  proof (cases "bad = []")
    case True
    then have "good \<noteq> []" using gb rs by auto
    then show ?thesis using True go cnt le by simp
  next
    case False
    then show ?thesis using go cnt le by auto
  qed
qed

lemma aggr_parse_loop_Nil: "aggr_parse_loop e aggr name [] n = (0, aggr, n)"
  by (simp add: aggr_parse_loop.simps)

lemma aggr_parse_loop_named:
  assumes "args0 \<noteq> []" and "next_arg args0 = (tok, rest)" and "\<not> is_list_expression tok"
  shows "aggr_parse_loop e aggr name args0 n =
     (if fst (aggr_add_gpio e aggr name U16_MAX n) \<noteq> 0 then aggr_add_gpio e aggr name U16_MAX n
      else aggr_parse_loop e (fst (snd (aggr_add_gpio e aggr name U16_MAX n))) tok rest
             (snd (snd (aggr_add_gpio e aggr name U16_MAX n))))"
proof -
  have c: "fst (get_options tok) = 0 \<or> snd (get_options tok) \<noteq> []"
    using assms(3) get_options_list_expression[of tok] by simp
  show ?thesis
    by (subst aggr_parse_loop.simps) (use assms(1,2) c in \<open>simp add: Let_def\<close>)
qed

lemma aggr_parse_loop_list:
  assumes "args0 \<noteq> []" and "next_arg args0 = (tok, rest)" and "is_list_expression tok"
  shows "aggr_parse_loop e aggr name args0 n =
     (if fst (bitmap_parselist e tok AGGREGATOR_MAX_GPIOS) \<noteq> 0
      then (fst (bitmap_parselist e tok AGGREGATOR_MAX_GPIOS), aggr, n)
      else if fst (aggr_add_gpios e aggr name
                 (for_each_set_bit (snd (bitmap_parselist e tok AGGREGATOR_MAX_GPIOS))
                    AGGREGATOR_MAX_GPIOS) n) \<noteq> 0
      then aggr_add_gpios e aggr name
             (for_each_set_bit (snd (bitmap_parselist e tok AGGREGATOR_MAX_GPIOS))
                AGGREGATOR_MAX_GPIOS) n
      else aggr_parse_loop e
             (fst (snd (aggr_add_gpios e aggr name
                 (for_each_set_bit (snd (bitmap_parselist e tok AGGREGATOR_MAX_GPIOS))
                    AGGREGATOR_MAX_GPIOS) n)))
             (fst (next_arg rest)) (snd (next_arg rest))
             (snd (snd (aggr_add_gpios e aggr name
                 (for_each_set_bit (snd (bitmap_parselist e tok AGGREGATOR_MAX_GPIOS))
                    AGGREGATOR_MAX_GPIOS) n))))"
proof -
  have c: "\<not> (fst (get_options tok) = 0 \<or> snd (get_options tok) \<noteq> [])"
    using assms(3) get_options_list_expression[of tok] by simp
  show ?thesis
    by (subst aggr_parse_loop.simps) (use assms(1,2) c in \<open>simp add: Let_def\<close>)
qed


lemma for_each_set_bit_of_sorted:
  assumes "sorted_wrt (<) xs" and "\<forall>i\<in>set xs. i < n"
  shows "for_each_set_bit (set xs) n = xs"
proof (rule sorted_distinct_set_unique)
  show "sorted (for_each_set_bit (set xs) n)"
    unfolding for_each_set_bit_def by (rule sorted_filter[of "\<lambda>x. x", simplified]) simp
  show "distinct (for_each_set_bit (set xs) n)" by (simp add: for_each_set_bit_def)
  show "sorted xs" using assms(1) by (simp add: strict_sorted_iff)
  show "distinct xs" using assms(1) by (simp add: strict_sorted_iff)
  show "set (for_each_set_bit (set xs) n) = set xs"
    using assms(2) by (auto simp: for_each_set_bit_def)
qed

lemma aggr_parse_via_loop:
  assumes "bitmap_alloc_ok e" and "next_arg (skip_spaces (args aggr)) = (name, rest)"
    and "aggr_parse_loop e aggr name rest 0 = (rc, aggr', n)"
  shows "aggr_parse e aggr =
           (if rc \<noteq> 0 then (rc, aggr') else if n = 0 then (- EINVAL, aggr') else (0, aggr'))"
  using assms by (simp add: aggr_parse_def Let_def)

lemma env_ok_simps:
  "try_module_get env_ok" "kzalloc_aggr_ok env_ok" "kzalloc_lookups_ok env_ok"
  "idr_alloc_ok env_ok" "kasprintf_ok env_ok" "bitmap_alloc_ok env_ok"
  "krealloc_ok env_ok k" "platform_device_register env_ok = 0"
  by (simp_all add: env_ok_def)

subsection \<open>Id allocation and creation\<close>

lemma idr_alloc_fresh:
  "\<exists>i. i \<notin> fst ` set idr \<and> idr_alloc True idr ptr = (int i, (i, ptr) # idr)"
proof -
  let ?P = "\<lambda>i. i \<notin> set (map fst idr)"
  have "find ?P [0..<length idr + 1] \<noteq> None"
  proof
    assume "find ?P [0..<length idr + 1] = None"
    then have "\<forall>i\<in>set [0..<length idr + 1]. i \<in> set (map fst idr)"
      unfolding find_None_iff by blast
    then have "{0..<length idr + 1} \<subseteq> set (map fst idr)"
      unfolding set_upt by blast
    then have "card {0..<length idr + 1} \<le> card (set (map fst idr))"
      by (intro card_mono) simp_all
    moreover have "card (set (map fst idr)) \<le> length idr"
      using card_length[of "map fst idr"] by simp
    ultimately show False by simp
  qed
  then obtain i where f: "find ?P [0..<length idr + 1] = Some i" by auto
  then have "?P i" by (auto simp: find_Some_iff)
  with f show ?thesis by (auto simp: idr_alloc_def)
qed

lemma idr_remove_fresh: "i \<notin> fst ` set idr \<Longrightarrow> idr_remove ((i, ptr) # idr) i = idr"
  by (auto simp: idr_remove_def filter_id_conv)





section \<open>Batched read\<close>

lemma pack_descs_fold:
  "j0 + length sel \<le> length ds0 \<Longrightarrow>
   fold (\<lambda>i (ds, j). (ds[j := f i], j + 1)) sel (ds0, j0)
     = (take j0 ds0 @ map f sel @ drop (j0 + length sel) ds0, j0 + length sel)"
proof (induction sel arbitrary: ds0 j0)
  case Nil
  then show ?case by simp
next
  case (Cons i sel)
  have len: "Suc j0 + length sel \<le> length (ds0[j0 := f i])" using Cons.prems by simp
  have j0: "j0 < length ds0" using Cons.prems by simp
  have "take (Suc j0) (ds0[j0 := f i]) = take j0 ds0 @ [f i]"
    using j0 by (simp add: take_Suc_conv_app_nth)
  then show ?case using Cons.IH[OF len] by simp
qed

lemma unpack_bits_fold:
  "distinct sel \<Longrightarrow>
   (\<forall>k<length sel. (sel ! k \<in> fst (fold (\<lambda>i (b, j). (assign_bit i b (test_bit j vals), j + 1)) sel (bits, j0)))
        = (j0 + k \<in> vals)) \<and>
   (\<forall>i. i \<notin> set sel \<longrightarrow> (i \<in> fst (fold (\<lambda>i (b, j). (assign_bit i b (test_bit j vals), j + 1)) sel (bits, j0)))
        = (i \<in> bits))"
proof (induction sel arbitrary: bits j0)
  case Nil
  then show ?case by simp
next
  case (Cons a sel)
  let ?b1 = "assign_bit a bits (test_bit j0 vals)"
  have d: "distinct sel" and a: "a \<notin> set sel" using Cons.prems by auto
  note IH = Cons.IH[OF d, of ?b1 "j0 + 1"]
  have a_in: "(a \<in> ?b1) = (j0 \<in> vals)" by (simp add: assign_bit_def test_bit_def)
  have other: "\<And>i. i \<noteq> a \<Longrightarrow> (i \<in> ?b1) = (i \<in> bits)" by (auto simp: assign_bit_def)
  show ?case
  proof (intro conjI allI impI)
    fix k assume k: "k < length (a # sel)"
    show "((a # sel) ! k \<in> fst (fold (\<lambda>i (b, j). (assign_bit i b (test_bit j vals), j + 1)) (a # sel) (bits, j0)))
        = (j0 + k \<in> vals)"
    proof (cases k)
      case 0
      then show ?thesis using IH a a_in by simp
    next
      case (Suc k')
      then show ?thesis using IH k by simp
    qed
  next
    fix i assume "i \<notin> set (a # sel)"
    then show "(i \<in> fst (fold (\<lambda>i (b, j). (assign_bit i b (test_bit j vals), j + 1)) (a # sel) (bits, j0)))
        = (i \<in> bits)"
      using IH other by simp
  qed
qed

lemma for_each_set_bit_0_2_of_3: "for_each_set_bit {0, 2} 3 = [0, 2]"
  by code_simp

text \<open>
  C1. \<^verbatim>\<open>gpio_fwd_get_multiple_locked\<close> takes the forwarder's lock (the mutex if
  \<^verbatim>\<open>can_sleep\<close>, the spinlock otherwise), clears the first \<^verbatim>\<open>ngpio\<close> bits of the
  scratch values, packs the handles of the positions selected by the mask in ascending
  order, makes exactly one batched read of the provider on the packed handles and releases
  the lock. When the read returns 0, bit \<open>k\<close> of the values read is written to the
  \<open>k\<close>-th selected position of the caller's bitmap and all other bits are kept; when
  it returns an error, the error is returned and the caller's bitmap is unchanged.
\<close>

theorem gpio_fwd_get_multiple_locked_correct:
  assumes "length (descs fwd) = ngpio (chip fwd)" and "length (tmp_descs fwd) = ngpio (chip fwd)"
  shows "let sel = for_each_set_bit msk (ngpio (chip fwd));
             hs = map (\<lambda>i. descs fwd ! i) sel;
             cleared = tmp_values fwd - {0..<ngpio (chip fwd)};
             rd = (if can_sleep (chip fwd)
                   then gpiod_get_array_value_cansleep prov (length sel) hs cleared
                   else gpiod_get_array_value prov (length sel) hs cleared);
             res = gpio_fwd_get_multiple_locked prov fwd msk bits;
             bits' = fst (snd (snd res))
         in sorted_wrt (<) sel \<and> set sel = {i \<in> msk. i < ngpio (chip fwd)} \<and>
            snd (snd (snd res)) =
              (if can_sleep (chip fwd)
               then [Mutex_Lock, Get_Array_Value_Cansleep hs, Mutex_Unlock]
               else [Spin_Lock_Irqsave, Get_Array_Value hs, Spin_Unlock_Irqrestore]) \<and>
            fst res = fst rd \<and>
            (fst rd \<noteq> 0 \<longrightarrow> bits' = bits) \<and>
            (fst rd = 0 \<longrightarrow>
               (\<forall>k<length sel. (sel ! k \<in> bits') = (k \<in> snd rd)) \<and>
               (\<forall>i. i \<notin> set sel \<longrightarrow> (i \<in> bits') = (i \<in> bits)))"
proof -
  define sel where "sel = for_each_set_bit msk (ngpio (chip fwd))"
  have len: "0 + length sel \<le> length (tmp_descs fwd)"
    using for_each_set_bit_length[of msk "ngpio (chip fwd)"] assms(2) by (simp add: sel_def)
  have pack: "fold (\<lambda>i (ds, j). (ds[j := descs fwd ! i], j + 1)) sel (tmp_descs fwd, 0)
      = (map (\<lambda>i. descs fwd ! i) sel @ drop (length sel) (tmp_descs fwd), length sel)"
    using pack_descs_fold[OF len, of "\<lambda>i. descs fwd ! i"] by simp
  have unpack: "\<And>vals. (\<forall>k<length sel. (sel ! k \<in> fst (fold (\<lambda>i (b, j). (assign_bit i b (test_bit j vals), j + 1)) sel (bits, 0)))
        = (k \<in> vals)) \<and>
   (\<forall>i. i \<notin> set sel \<longrightarrow> (i \<in> fst (fold (\<lambda>i (b, j). (assign_bit i b (test_bit j vals), j + 1)) sel (bits, 0)))
        = (i \<in> bits))"
    using unpack_bits_fold[of sel _ bits 0] for_each_set_bit_distinct[of msk "ngpio (chip fwd)"]
    by (simp add: sel_def)
  show ?thesis
    unfolding Let_def gpio_fwd_get_multiple_locked_def gpio_fwd_get_multiple_def sel_def[symmetric] pack
    using unpack for_each_set_bit_sorted[of msk "ngpio (chip fwd)"] for_each_set_bit_set[of msk "ngpio (chip fwd)"]
    by (simp add: sel_def bitmap_clear_def)
qed

theorem gpio_fwd_get_multiple_locked_correct_witness:
  "length (descs fwd_abc) = ngpio (chip fwd_abc) \<and>
   length (tmp_descs fwd_abc) = ngpio (chip fwd_abc) \<and>
   snd (snd (snd (gpio_fwd_get_multiple_locked (prov_const 0 {1}) fwd_abc {0, 2} {0, 1})))
     = [Spin_Lock_Irqsave, Get_Array_Value [Some desc_a, Some desc_a], Spin_Unlock_Irqrestore] \<and>
   fst (gpio_fwd_get_multiple_locked (prov_const 0 {1}) fwd_abc {0, 2} {0, 1}) = 0 \<and>
   fst (gpio_fwd_get_multiple_locked (prov_const (- 5) {1}) fwd_abc {0, 2} {0, 1}) = - 5 \<and>
   fst (snd (snd (gpio_fwd_get_multiple_locked (prov_const (- 5) {1}) fwd_abc {0, 2} {0, 1}))) = {0, 1}"
proof -
  have h1: "length (descs fwd_abc) = ngpio (chip fwd_abc)" by (simp add: fwd_abc_def)
  have h2: "length (tmp_descs fwd_abc) = ngpio (chip fwd_abc)" by (simp add: fwd_abc_def)
  have n: "ngpio (chip fwd_abc) = 3" by (simp add: fwd_abc_def)
  note ok = gpio_fwd_get_multiple_locked_correct[OF h1 h2, of "{0, 2}" "prov_const 0 {1}" "{0, 1}",
      unfolded Let_def n for_each_set_bit_0_2_of_3]
  note ko = gpio_fwd_get_multiple_locked_correct[OF h1 h2, of "{0, 2}" "prov_const (- 5) {1}" "{0, 1}",
      unfolded Let_def n for_each_set_bit_0_2_of_3]
  have ev: "snd (snd (snd (gpio_fwd_get_multiple_locked (prov_const 0 {1}) fwd_abc {0, 2} {0, 1})))
     = [Spin_Lock_Irqsave, Get_Array_Value [Some desc_a, Some desc_a], Spin_Unlock_Irqrestore]"
    using ok[THEN conjunct2, THEN conjunct2, THEN conjunct1] by (simp add: fwd_abc_def)
  have rc: "fst (gpio_fwd_get_multiple_locked (prov_const 0 {1}) fwd_abc {0, 2} {0, 1}) = 0"
    using ok[THEN conjunct2, THEN conjunct2, THEN conjunct2, THEN conjunct1]
    by (simp add: fwd_abc_def prov_const_def)
  have rc': "fst (gpio_fwd_get_multiple_locked (prov_const (- 5) {1}) fwd_abc {0, 2} {0, 1}) = - 5"
    using ko[THEN conjunct2, THEN conjunct2, THEN conjunct2, THEN conjunct1]
    by (simp add: fwd_abc_def prov_const_def)
  have keep: "fst (snd (snd (gpio_fwd_get_multiple_locked (prov_const (- 5) {1}) fwd_abc {0, 2} {0, 1}))) = {0, 1}"
    using ko[THEN conjunct2, THEN conjunct2, THEN conjunct2, THEN conjunct2, THEN conjunct1]
    by (simp add: fwd_abc_def prov_const_def)
  show ?thesis using h1 h2 ev rc rc' keep by simp
qed

section \<open>Registration fixes \<open>can_sleep\<close> and the lock kind\<close>

lemma filter_update_None:
  "off < length xs \<Longrightarrow> xs ! off = None \<Longrightarrow>
   length (filter (\<lambda>x. x \<noteq> None) (xs[off := Some d])) = Suc (length (filter (\<lambda>x. x \<noteq> None) xs))"
proof (induction xs arbitrary: off)
  case Nil
  then show ?case by simp
next
  case (Cons a xs)
  then show ?case by (cases off) auto
qed

lemma fwd_built_inv:
  "fwd_built n fwd ds \<Longrightarrow>
     ngpio (chip fwd) = n \<and> length (descs fwd) = n \<and>
     can_sleep (chip fwd) = (\<exists>d\<in>set ds. gpiod_cansleep d) \<and>
     length (filter (\<lambda>x. x \<noteq> None) (descs fwd)) = length ds"
proof (induction rule: fwd_built.induct)
  case (built_alloc n fwd)
  then show ?case by (auto simp: devm_gpio_fwd_alloc_def)
next
  case (built_added n fwd ds d off fwd')
  then show ?case
    by (auto simp: gpio_fwd_add_gpio_desc_def Let_def filter_update_None EINVAL_def EEXIST_def
          simp del: not_None_eq split: if_splits)
next
  case (built_refused n fwd ds d off e fwd')
  then show ?case
    by (auto simp: gpio_fwd_add_gpio_desc_def Let_def split: if_splits)
qed

lemma numeral_2_replicate: "replicate 2 x = [x, x]"
  by (simp add: numeral_2_eq_2)

text \<open>
  C2. After \<^verbatim>\<open>gpio_fwd_register\<close>, \<^verbatim>\<open>can_sleep\<close> is the disjunction of
  \<^verbatim>\<open>gpiod_cansleep\<close> over the handles that \<^verbatim>\<open>gpio_fwd_add_gpio_desc\<close> accepted,
  or true when fewer handles are bound than lines declared; a forwarder whose lines are all
  bound and non-sleeping has \<^verbatim>\<open>can_sleep\<close> false. The mutex is initialised iff
  \<^verbatim>\<open>can_sleep\<close> holds, the spinlock otherwise.
\<close>

theorem gpio_fwd_register_can_sleep:
  assumes "fwd_built n fwd ds"
  shows "can_sleep (chip (snd (gpio_fwd_register r fwd)))
           = ((\<exists>d\<in>set ds. gpiod_cansleep d) \<or> length ds < n)
       \<and> lock (snd (gpio_fwd_register r fwd))
           = (if can_sleep (chip (snd (gpio_fwd_register r fwd))) then Mutex_Init else Spinlock_Init)"
proof -
  from fwd_built_inv[OF assms] have inv: "ngpio (chip fwd) = n" "length (descs fwd) = n"
     "can_sleep (chip fwd) = (\<exists>d\<in>set ds. gpiod_cansleep d)"
     "length (filter (\<lambda>x. x \<noteq> None) (descs fwd)) = length ds" by auto
  have le: "length ds \<le> n" using inv(2,4) length_filter_le[of "\<lambda>x. x \<noteq> None" "descs fwd"] by simp
  have cnt: "fold (\<lambda>i nd. if descs fwd ! i \<noteq> None then nd + 1 else nd) [0..<ngpio (chip fwd)] (0::nat) = length ds"
    using count_fold_filter[of "descs fwd" 0] inv by simp
  show ?thesis using le inv(1,3) unfolding gpio_fwd_register_def Let_def cnt by auto
qed

theorem gpio_fwd_register_can_sleep_witness:
  "fwd_built 2 fwd_ab [desc_b, desc_a] \<and>
   \<not> can_sleep (chip (snd (gpio_fwd_register 0 fwd_ab))) \<and>
   lock (snd (gpio_fwd_register 0 fwd_ab)) = Spinlock_Init \<and>
   fwd_built 2 fwd_a_deferred [desc_a] \<and>
   can_sleep (chip (snd (gpio_fwd_register 0 fwd_a_deferred))) \<and>
   lock (snd (gpio_fwd_register 0 fwd_a_deferred)) = Mutex_Init"
proof -
  have b0: "fwd_built 2 \<lparr>chip = \<lparr>ngpio = 2, can_sleep = False\<rparr>, descs = [None, None],
     lock = Lock_Uninit, delay_timings = None, tmp_values = {}, tmp_descs = [None, None]\<rparr> []"
    by (rule built_alloc) (simp add: devm_gpio_fwd_alloc_def numeral_2_replicate)
  have b1: "fwd_built 2 fwd_a_deferred [desc_a]"
    unfolding fwd_a_deferred_def
    by (rule built_added[OF b0, of desc_a 0])
       (simp add: gpio_fwd_add_gpio_desc_def gpiod_cansleep_def desc_a_def)
  have b2: "fwd_built 2 fwd_ab [desc_b, desc_a]"
    unfolding fwd_ab_def
    by (rule built_added[OF b1[unfolded fwd_a_deferred_def], of desc_b 1])
       (simp add: gpio_fwd_add_gpio_desc_def gpiod_cansleep_def desc_b_def)
  from gpio_fwd_register_can_sleep[OF b2, of 0] gpio_fwd_register_can_sleep[OF b1, of 0] b1 b2
  show ?thesis
    by (simp add: gpiod_cansleep_def desc_a_def desc_b_def)
qed

section \<open>Batched write\<close>

lemma pack_vals_fold:
  "j0 + length sel \<le> length ds0 \<Longrightarrow>
   (let r = fold (\<lambda>i (vals, ds, j). (assign_bit j vals (test_bit i bits), ds[j := f i], j + 1))
              sel (vals0, ds0, j0)
    in fst (snd r) = take j0 ds0 @ map f sel @ drop (j0 + length sel) ds0 \<and>
       snd (snd r) = j0 + length sel \<and>
       (\<forall>k<length sel. test_bit (j0 + k) (fst r) = test_bit (sel ! k) bits) \<and>
       (\<forall>m<j0. test_bit m (fst r) = test_bit m vals0))"
proof (induction sel arbitrary: vals0 ds0 j0)
  case Nil
  then show ?case by simp
next
  case (Cons i sel)
  let ?v1 = "assign_bit j0 vals0 (test_bit i bits)"
  let ?d1 = "ds0[j0 := f i]"
  have len: "Suc j0 + length sel \<le> length ?d1" using Cons.prems by simp
  have j0: "j0 < length ds0" using Cons.prems by simp
  have tk: "take (Suc j0) ?d1 = take j0 ds0 @ [f i]"
    using j0 by (simp add: take_Suc_conv_app_nth)
  have v1_j0: "test_bit j0 ?v1 = test_bit i bits" by (simp add: assign_bit_def test_bit_def)
  have v1_lt: "\<And>m. m < j0 \<Longrightarrow> test_bit m ?v1 = test_bit m vals0"
    by (auto simp: assign_bit_def test_bit_def)
  note IH = Cons.IH[OF len, of ?v1, unfolded Let_def]
  show ?case
    unfolding Let_def
  proof (intro conjI allI impI)
    show "fst (snd (fold (\<lambda>i (vals, ds, j). (assign_bit j vals (test_bit i bits), ds[j := f i], j + 1))
              (i # sel) (vals0, ds0, j0))) = take j0 ds0 @ map f (i # sel) @ drop (j0 + length (i # sel)) ds0"
      using IH tk by simp
    show "snd (snd (fold (\<lambda>i (vals, ds, j). (assign_bit j vals (test_bit i bits), ds[j := f i], j + 1))
              (i # sel) (vals0, ds0, j0))) = j0 + length (i # sel)"
      using IH by simp
  next
    fix k assume k: "k < length (i # sel)"
    show "test_bit (j0 + k) (fst (fold (\<lambda>i (vals, ds, j). (assign_bit j vals (test_bit i bits), ds[j := f i], j + 1))
              (i # sel) (vals0, ds0, j0))) = test_bit ((i # sel) ! k) bits"
    proof (cases k)
      case 0
      then show ?thesis using IH v1_j0 by simp
    next
      case (Suc k')
      then show ?thesis using IH k by simp
    qed
  next
    fix m assume "m < j0"
    then show "test_bit m (fst (fold (\<lambda>i (vals, ds, j). (assign_bit j vals (test_bit i bits), ds[j := f i], j + 1))
              (i # sel) (vals0, ds0, j0))) = test_bit m vals0"
      using IH v1_lt by simp
  qed
qed

lemma for_each_set_bit_0_of_1: "for_each_set_bit {0} 1 = [0]"
  by code_simp

text \<open>
  C9. \<^verbatim>\<open>gpio_fwd_set_multiple_locked\<close> takes the lock, makes one batched write of the
  provider on the packed handles and their values, and releases the lock: whatever the
  delay table holds, no \<^verbatim>\<open>fsleep\<close> or \<^verbatim>\<open>udelay\<close> is among its calls.
\<close>

theorem gpio_fwd_set_multiple_locked_no_delay:
  assumes "length (descs fwd) = ngpio (chip fwd)" and "length (tmp_descs fwd) = ngpio (chip fwd)"
  shows "let sel = for_each_set_bit msk (ngpio (chip fwd));
             hs = map (\<lambda>i. descs fwd ! i) sel;
             vs = map (\<lambda>i. test_bit i bits) sel;
             evs = snd (gpio_fwd_set_multiple_locked fwd msk bits)
         in evs = (if can_sleep (chip fwd)
                   then [Mutex_Lock, Set_Array_Value_Cansleep hs vs, Mutex_Unlock]
                   else [Spin_Lock_Irqsave, Set_Array_Value hs vs, Spin_Unlock_Irqrestore]) \<and>
            \<not> list_ex is_delay evs"
proof -
  define sel where "sel = for_each_set_bit msk (ngpio (chip fwd))"
  define r where "r = fold (\<lambda>i (vals, ds, j).
            (assign_bit j vals (test_bit i bits), ds[j := descs fwd ! i], j + 1))
          sel (tmp_values fwd, tmp_descs fwd, 0::nat)"
  have len: "0 + length sel \<le> length (tmp_descs fwd)"
    using for_each_set_bit_length[of msk "ngpio (chip fwd)"] assms(2) by (simp add: sel_def)
  note p = pack_vals_fold[OF len, of bits "\<lambda>i. descs fwd ! i" "tmp_values fwd",
      unfolded Let_def, folded r_def]
  have j: "snd (snd r) = length sel" using p by simp
  have ds: "take (snd (snd r)) (fst (snd r)) = map (\<lambda>i. descs fwd ! i) sel"
    using p by simp
  have bit: "\<And>k. k < length sel \<Longrightarrow> test_bit k (fst r) = test_bit (sel ! k) bits"
    using p by simp
  have vs: "map (\<lambda>k. test_bit k (fst r)) [0..<snd (snd r)] = map (\<lambda>i. test_bit i bits) sel"
    unfolding j by (rule nth_equalityI) (simp_all add: bit)
  show ?thesis
    unfolding Let_def gpio_fwd_set_multiple_locked_def gpio_fwd_set_multiple_def
      sel_def[symmetric] r_def[symmetric]
    by (simp add: ds vs is_delay_def)
qed

theorem gpio_fwd_set_multiple_locked_no_delay_witness:
  "length (descs fwd_ramp) = ngpio (chip fwd_ramp) \<and>
   length (tmp_descs fwd_ramp) = ngpio (chip fwd_ramp) \<and>
   snd (gpio_fwd_set_multiple_locked fwd_ramp {0} {}) =
     [Spin_Lock_Irqsave, Set_Array_Value [Some desc_a] [False], Spin_Unlock_Irqrestore] \<and>
   gpio_fwd_set fwd_ramp 0 0 = Some [Set_Value (Some desc_a) 0, Udelay 200]"
proof -
  have h1: "length (descs fwd_ramp) = ngpio (chip fwd_ramp)" by (simp add: fwd_ramp_def)
  have h2: "length (tmp_descs fwd_ramp) = ngpio (chip fwd_ramp)" by (simp add: fwd_ramp_def)
  have n: "ngpio (chip fwd_ramp) = 1" by (simp add: fwd_ramp_def)
  note t = gpio_fwd_set_multiple_locked_no_delay[OF h1 h2, of "{0}" "{}",
      unfolded Let_def n for_each_set_bit_0_of_1]
  have ev: "snd (gpio_fwd_set_multiple_locked fwd_ramp {0} {}) =
     [Spin_Lock_Irqsave, Set_Array_Value [Some desc_a] [False], Spin_Unlock_Irqrestore]"
    using t[THEN conjunct1] by (simp add: fwd_ramp_def test_bit_def)
  have single: "gpio_fwd_set fwd_ramp 0 0 = Some [Set_Value (Some desc_a) 0, Udelay 200]"
    by (simp add: gpio_fwd_set_def gpio_fwd_delay_def fwd_ramp_def gpiod_is_active_low_def
          desc_a_def Let_def)
  show ?thesis using h1 h2 ev single by simp
qed

section \<open>Single-line write and ramp delay\<close>

lemma fwd_ramp_built:
  "gpio_fwd_delay_of_xlate
     (snd (gpio_fwd_register 0
        (snd (gpio_fwd_setup_delay_line True
           (snd (the (gpio_fwd_add_gpio_desc (projr (devm_gpio_fwd_alloc True True 1)) desc_a 0)))))))
     [0, 0, 200] = Some (0, fwd_ramp)"
  by (simp add: devm_gpio_fwd_alloc_def gpio_fwd_add_gpio_desc_def gpiod_cansleep_def desc_a_def
        gpio_fwd_setup_delay_line_def gpio_fwd_register_def gpio_fwd_delay_of_xlate_def
        fwd_ramp_def Let_def)

text \<open>
  C5. On a bound position with a ramp timing, \<^verbatim>\<open>gpio_fwd_set\<close> writes the line and
  then waits: the transition is rising when the line is not active-low and the value is
  non-zero, or active-low and the value zero; the delay is \<^verbatim>\<open>ramp_up_us\<close> when
  rising and \<^verbatim>\<open>ramp_down_us\<close> when falling, by \<^verbatim>\<open>fsleep\<close> if the chip can
  sleep and \<^verbatim>\<open>udelay\<close> otherwise, and a delay of zero makes no wait call at all.
  With the timing (rising 0, falling 200) on a line that is not active-low, writing 1
  makes no wait call and writing 0 waits 200 microseconds.
\<close>

theorem gpio_fwd_set_ramp_delay:
  assumes "offset < length (descs fwd)" and "descs fwd ! offset = Some d"
    and "delay_timings fwd = Some timings" and "offset < length timings"
  shows "(let rising = ((\<not> gpiod_is_active_low d \<and> v \<noteq> 0) \<or> (gpiod_is_active_low d \<and> v = 0));
              delay_us = (if rising then ramp_up_us (timings ! offset)
                          else ramp_down_us (timings ! offset));
              wr = (if can_sleep (chip fwd) then Set_Value_Cansleep (Some d) v
                    else Set_Value (Some d) v)
          in gpio_fwd_set fwd offset v =
               Some (if delay_us = 0 then [wr]
                     else if can_sleep (chip fwd) then [wr, Fsleep delay_us]
                     else [wr, Udelay delay_us])) \<and>
         (\<not> gpiod_is_active_low d \<and> ramp_up_us (timings ! offset) = 0 \<and>
          ramp_down_us (timings ! offset) = 200 \<longrightarrow>
            gpio_fwd_set fwd offset 1 =
              Some [if can_sleep (chip fwd) then Set_Value_Cansleep (Some d) 1
                    else Set_Value (Some d) 1] \<and>
            gpio_fwd_set fwd offset 0 =
              Some [if can_sleep (chip fwd) then Set_Value_Cansleep (Some d) 0
                    else Set_Value (Some d) 0,
                    if can_sleep (chip fwd) then Fsleep 200 else Udelay 200])"
  using assms by (simp add: gpio_fwd_set_def gpio_fwd_delay_def Let_def)

theorem gpio_fwd_set_ramp_delay_witness:
  "0 < length (descs fwd_ramp) \<and> descs fwd_ramp ! 0 = Some desc_a \<and>
   delay_timings fwd_ramp = Some [\<lparr>ramp_up_us = 0, ramp_down_us = 200\<rparr>] \<and>
   gpio_fwd_delay_of_xlate
     (snd (gpio_fwd_register 0
        (snd (gpio_fwd_setup_delay_line True
           (snd (the (gpio_fwd_add_gpio_desc (projr (devm_gpio_fwd_alloc True True 1)) desc_a 0)))))))
     [0, 0, 200] = Some (0, fwd_ramp) \<and>
   gpio_fwd_set fwd_ramp 0 1 = Some [Set_Value (Some desc_a) 1] \<and>
   gpio_fwd_set fwd_ramp 0 0 = Some [Set_Value (Some desc_a) 0, Udelay 200]"
proof -
  have h1: "0 < length (descs fwd_ramp)" by (simp add: fwd_ramp_def)
  have h2: "descs fwd_ramp ! 0 = Some desc_a" by (simp add: fwd_ramp_def)
  have h3: "delay_timings fwd_ramp = Some [\<lparr>ramp_up_us = 0, ramp_down_us = 200\<rparr>]"
    by (simp add: fwd_ramp_def)
  have h4: "0 < length [\<lparr>ramp_up_us = 0::nat, ramp_down_us = 200::nat\<rparr>]" by simp
  have cs: "\<not> can_sleep (chip fwd_ramp)" by (simp add: fwd_ramp_def)
  have al: "\<not> gpiod_is_active_low desc_a" by (simp add: gpiod_is_active_low_def desc_a_def)
  have up: "gpio_fwd_set fwd_ramp 0 1 = Some [Set_Value (Some desc_a) 1]"
    using gpio_fwd_set_ramp_delay[OF h1 h2 h3 h4, of 1, THEN conjunct2] cs al by simp
  have down: "gpio_fwd_set fwd_ramp 0 0 = Some [Set_Value (Some desc_a) 0, Udelay 200]"
    using gpio_fwd_set_ramp_delay[OF h1 h2 h3 h4, of 0, THEN conjunct1] cs al
    by (simp add: Let_def)
  show ?thesis using h1 h2 h3 fwd_ramp_built up down by simp
qed

section \<open>Binding a handle at offset \<open>ngpio\<close>\<close>

text \<open>
  C10. On a freshly allocated forwarder of \<open>n\<close> lines, the check
  \<^verbatim>\<open>offset > chip->ngpio\<close> lets the offset \<open>n\<close> through: the call does not return
  \<^verbatim>\<open>-EINVAL\<close> but goes on to \<^verbatim>\<open>fwd->descs[n]\<close>, one slot past the array.
  The offset \<open>n + 1\<close> is refused, and so is the line \<open>n\<close> by the check
  \<^verbatim>\<open>line >= chip->ngpio\<close> of \<^verbatim>\<open>gpio_fwd_delay_of_xlate\<close>.
\<close>

theorem gpio_fwd_add_gpio_desc_offset_ngpio:
  "(case devm_gpio_fwd_alloc True True n of
      Inl e \<Rightarrow> False
    | Inr fwd \<Rightarrow> ngpio (chip fwd) = n \<and> length (descs fwd) = n \<and>
                 gpio_fwd_add_gpio_desc fwd d n = None \<and>
                 gpio_fwd_add_gpio_desc fwd d n \<noteq> Some (- EINVAL, fwd) \<and>
                 gpio_fwd_add_gpio_desc fwd d (n + 1) = Some (- EINVAL, fwd) \<and>
                 gpio_fwd_delay_of_xlate fwd [n, up, down] = Some (- EINVAL, fwd))"
  by (simp add: devm_gpio_fwd_alloc_def gpio_fwd_add_gpio_desc_def gpio_fwd_delay_of_xlate_def)

section \<open>The request \<open>gpio0 1,3-4 gpio1 2\<close>\<close>

lemma find_by_idx:
  assumes "\<forall>j<length tbl. idx (tbl ! j) = j" and "i < length tbl"
  shows "find (\<lambda>en. idx en = i) tbl = Some (tbl ! i)"
  unfolding find_Some_iff
  by (rule exI[of _ i]) (use assms in auto)

lemma probe_get_descs_ok:
  assumes "\<forall>j<length (table t). idx (table t ! j) = j" and "\<forall>i\<in>set is. i < length (table t)"
  shows "probe_get_descs (\<lambda>en. Inr (f en)) t is = Inr (map (\<lambda>i. f (table t ! i)) is)"
  using assms(2)
proof (induction "is")
  case Nil
  then show ?case by simp
next
  case (Cons i "is")
  then show ?case
    by (simp add: devm_gpiod_get_index_def find_by_idx[OF assms(1)])
qed

lemma gpio_fwd_create_loop_ok:
  assumes "distinct is" and "ngpio (chip fwd) = length (descs fwd)"
    and "\<forall>i\<in>set is. i < length ds \<and> i < length (descs fwd) \<and> descs fwd ! i = None"
  shows "gpio_fwd_create_loop fwd ds is =
     Some (Inr (fwd\<lparr>chip := (chip fwd)\<lparr>can_sleep :=
                        can_sleep (chip fwd) \<or> (\<exists>i\<in>set is. gpiod_cansleep (ds ! i))\<rparr>,
                    descs := fold (\<lambda>i xs. xs[i := Some (ds ! i)]) is (descs fwd)\<rparr>))"
  using assms
proof (induction "is" arbitrary: fwd)
  case Nil
  then show ?case by simp
next
  case (Cons i "is")
  let ?fwd1 = "(if gpiod_cansleep (ds ! i)
                then fwd\<lparr>chip := (chip fwd)\<lparr>can_sleep := True\<rparr>\<rparr> else fwd)
               \<lparr>descs := (descs fwd)[i := Some (ds ! i)]\<rparr>"
  have i: "i < length ds" "i < length (descs fwd)" "descs fwd ! i = None"
    using Cons.prems(3) by auto
  have add: "gpio_fwd_add_gpio_desc fwd (ds ! i) i = Some (0, ?fwd1)"
    using i Cons.prems(2) by (simp add: gpio_fwd_add_gpio_desc_def Let_def)
  have d: "distinct is" and ni: "i \<notin> set is" using Cons.prems(1) by auto
  have n1: "ngpio (chip ?fwd1) = length (descs ?fwd1)" using Cons.prems(2) by simp
  have r1: "\<forall>j\<in>set is. j < length ds \<and> j < length (descs ?fwd1) \<and> descs ?fwd1 ! j = None"
    using Cons.prems(3) ni by (auto simp: nth_list_update)
  show ?case
    using i add Cons.IH[OF d n1 r1] by auto
qed

lemma fold_update_all:
  "length ds = n \<Longrightarrow>
   fold (\<lambda>i xs. xs[i := Some (ds ! i)]) [0..<n] (replicate n None) = map Some ds"
proof -
  have nth: "\<And>is xs j. j < length xs \<Longrightarrow>
      fold (\<lambda>i xs. xs[i := Some (ds ! i)]) is xs ! j = (if j \<in> set is then Some (ds ! j) else xs ! j)"
  proof -
    fix "is" :: "nat list" and xs :: "'a option list" and j
    show "j < length xs \<Longrightarrow>
      fold (\<lambda>i xs. xs[i := Some (ds ! i)]) is xs ! j = (if j \<in> set is then Some (ds ! j) else xs ! j)"
      by (induction "is" arbitrary: xs) (auto simp: nth_list_update)
  qed
  have len: "\<And>is xs. length (fold (\<lambda>i xs. xs[i := Some (ds ! i)]) is xs) = length xs"
  proof -
    fix "is" :: "nat list" and xs :: "'a option list"
    show "length (fold (\<lambda>i xs. xs[i := Some (ds ! i)]) is xs) = length xs"
      by (induction "is" arbitrary: xs) auto
  qed
  assume "length ds = n"
  then show ?thesis
    by (intro nth_equalityI) (simp_all add: len nth)
qed

lemma gpio_fwd_create_ok:
  "gpio_fwd_create probe_env_ok (length ds) ds 0 =
     Some (Inr \<lparr>chip = \<lparr>ngpio = length ds, can_sleep = (\<exists>d\<in>set ds. gpiod_cansleep d)\<rparr>,
                 descs = map Some ds,
                 lock = (if \<exists>d\<in>set ds. gpiod_cansleep d then Mutex_Init else Spinlock_Init),
                 delay_timings = None,
                 tmp_values = {},
                 tmp_descs = replicate (length ds) None\<rparr>)"
proof -
  define n where "n = length ds"
  define fwd0 where "fwd0 = \<lparr>chip = \<lparr>ngpio = n, can_sleep = False\<rparr>,
                 descs = replicate n None, lock = Lock_Uninit, delay_timings = None,
                 tmp_values = {}, tmp_descs = replicate n (None :: gpio_desc option)\<rparr>"
  have alloc: "devm_gpio_fwd_alloc (fwd_kzalloc_ok probe_env_ok) (fwd_kcalloc_ok probe_env_ok) n
                 = Inr fwd0"
    by (simp add: devm_gpio_fwd_alloc_def probe_env_ok_def fwd0_def)
  have cs: "(\<exists>i\<in>{0..<length ds}. gpiod_cansleep (ds ! i)) = (\<exists>d\<in>set ds. gpiod_cansleep d)"
    by (metis atLeastLessThan_iff in_set_conv_nth zero_le)
  have loop: "gpio_fwd_create_loop fwd0 ds [0..<n] =
     Some (Inr (fwd0\<lparr>chip := (chip fwd0)\<lparr>can_sleep := (\<exists>d\<in>set ds. gpiod_cansleep d)\<rparr>,
                     descs := map Some ds\<rparr>))"
    using gpio_fwd_create_loop_ok[of "[0..<n]" fwd0 ds] fold_update_all[of ds n]
    by (simp add: fwd0_def n_def cs)
  have cnt: "fold (\<lambda>i nd. if map Some ds ! i \<noteq> None then nd + 1 else nd) [0..<n] (0::nat) = n"
    using count_fold_filter[of "map Some ds" 0] by (simp add: n_def)
  show ?thesis
    unfolding n_def[symmetric] gpio_fwd_create_def alloc sum.case loop option.case
    by (simp add: FWD_FEATURE_DELAY_def gpio_fwd_register_def Let_def fwd0_def cnt
          probe_env_ok_def del: not_None_eq)
qed

lemma gpio_aggregator_probe_ok:
  assumes "\<forall>j<length (table t). idx (table t ! j) = j"
  shows "gpio_aggregator_probe probe_env_ok (\<lambda>en. Inr (f en)) t 0 =
           gpio_fwd_create probe_env_ok (length (table t)) (map f (table t)) 0"
proof -
  have "probe_get_descs (\<lambda>en. Inr (f en)) t [0..<length (table t)]
          = Inr (map (\<lambda>i. f (table t ! i)) [0..<length (table t)])"
    by (rule probe_get_descs_ok[OF assms]) simp
  moreover have "map (\<lambda>i. f (table t ! i)) [0..<length (table t)] = map f (table t)"
    by (intro nth_equalityI) simp_all
  ultimately show ?thesis
    by (simp add: gpio_aggregator_probe_def gpiod_count_def probe_env_ok_def)
qed

lemma parse_region_simps:
  "parse_region ''1'' = Some (1, 1)" "parse_region ''3-4'' = Some (3, 4)"
  "parse_region ''2'' = Some (2, 2)"
  by (simp_all add: parse_region_def isdigit_def Let_def strtoul_def digit_val_def)

lemma gpio0_gpio1_tokens:
  "skip_spaces ''gpio0 1,3-4 gpio1 2'' = ''gpio0 1,3-4 gpio1 2''"
  "next_arg ''gpio0 1,3-4 gpio1 2'' = (''gpio0'', ''1,3-4 gpio1 2'')"
  "next_arg ''1,3-4 gpio1 2'' = (''1,3-4'', ''gpio1 2'')"
  "next_arg ''gpio1 2'' = (''gpio1'', ''2'')"
  "next_arg ''2'' = (''2'', [])"
  by (simp_all add: next_arg_def skip_spaces_def isspace_def)

lemma gpio0_gpio1_lists:
  "is_list_expression ''1,3-4''" "is_list_expression ''2''"
  "bitmap_parselist e ''1,3-4'' AGGREGATOR_MAX_GPIOS = (0, set [1, 3, 4])"
  "bitmap_parselist e ''2'' AGGREGATOR_MAX_GPIOS = (0, set [2])"
  by (auto simp: is_list_expression_def bitmap_parselist_def parse_region_simps
        AGGREGATOR_MAX_GPIOS_def Let_def)

lemma gpio0_gpio1_bits:
  "for_each_set_bit (set [1, 3, 4]) AGGREGATOR_MAX_GPIOS = [1, 3, 4]"
  "for_each_set_bit (set [2]) AGGREGATOR_MAX_GPIOS = [2]"
  by (rule for_each_set_bit_of_sorted; simp add: AGGREGATOR_MAX_GPIOS_def)+

lemma aggr_parse_gpio0_gpio1:
  "aggr_parse env_ok \<lparr>lookups = \<lparr>dev_id = d, table = []\<rparr>, pdev = None,
                        args = ''gpio0 1,3-4 gpio1 2''\<rparr>
     = (0, \<lparr>lookups = \<lparr>dev_id = d, table = table_gpio0_gpio1\<rparr>, pdev = None,
             args = ''gpio0 1,3-4 gpio1 2''\<rparr>)"
proof -
  define A0 where "A0 = \<lparr>lookups = \<lparr>dev_id = d, table = []\<rparr>, pdev = None,
                        args = ''gpio0 1,3-4 gpio1 2''\<rparr>"
  define A3 where "A3 = \<lparr>lookups = \<lparr>dev_id = d, table = take 3 table_gpio0_gpio1\<rparr>, pdev = None,
                        args = ''gpio0 1,3-4 gpio1 2''\<rparr>"
  define A4 where "A4 = \<lparr>lookups = \<lparr>dev_id = d, table = table_gpio0_gpio1\<rparr>, pdev = None,
                        args = ''gpio0 1,3-4 gpio1 2''\<rparr>"
  have add1: "aggr_add_gpios env_ok A0 ''gpio0'' [1, 3, 4] 0 = (0, A3, 3)"
    by (simp add: aggr_add_gpio_def env_ok_def A0_def A3_def table_gpio0_gpio1_def)
  have add2: "aggr_add_gpios env_ok A3 ''gpio1'' [2] 3 = (0, A4, 4)"
    by (simp add: aggr_add_gpio_def env_ok_def A3_def A4_def table_gpio0_gpio1_def)
  have step2: "aggr_parse_loop env_ok A3 ''gpio1'' ''2'' 3 = (0, A4, 4)"
    unfolding aggr_parse_loop_list[OF _ gpio0_gpio1_tokens(5) gpio0_gpio1_lists(2), simplified]
      gpio0_gpio1_lists(4) fst_conv snd_conv gpio0_gpio1_bits(2) add2 next_arg_Nil
      aggr_parse_loop_Nil
    by simp
  have step1: "aggr_parse_loop env_ok A0 ''gpio0'' ''1,3-4 gpio1 2'' 0 = (0, A4, 4)"
    unfolding aggr_parse_loop_list[OF _ gpio0_gpio1_tokens(3) gpio0_gpio1_lists(1), simplified]
      gpio0_gpio1_lists(3) fst_conv snd_conv gpio0_gpio1_bits(1) add1 gpio0_gpio1_tokens(4)
      step2
    by simp
  have na: "next_arg (skip_spaces (args A0)) = (''gpio0'', ''1,3-4 gpio1 2'')"
    by (simp add: A0_def gpio0_gpio1_tokens)
  have "aggr_parse env_ok A0 = (0, A4)"
    using aggr_parse_via_loop[OF env_ok_simps(6) na step1] by simp
  then show ?thesis by (simp add: A0_def A4_def)
qed

lemma upt_0_4: "[0..<4] = [0, 1, 2, 3]"
  by code_simp

lemma replicate_4: "replicate 4 x = [x, x, x, x]"
  by (simp add: numeral_eq_Suc)

lemma new_device_store_gpio0_gpio1:
  "new_device_store env_ok registry_empty ''gpio0 1,3-4 gpio1 2'' =
     (19, \<lparr>gpio_aggregator_idr =
             [(0, \<lparr>lookups = \<lparr>dev_id = Some 0, table = table_gpio0_gpio1\<rparr>, pdev = Some 0,
                   args = ''gpio0 1,3-4 gpio1 2''\<rparr>)],
           gpio_lookup_list = [\<lparr>dev_id = Some 0, table = table_gpio0_gpio1\<rparr>],
           platform_devices = [0]\<rparr>)"
  unfolding new_device_store_def Let_def
  by (simp add: env_ok_simps registry_empty_def idr_alloc_def idr_remove_def
        aggr_parse_gpio0_gpio1)

text \<open>
  C3. The request \<^verbatim>\<open>"gpio0 1,3-4 gpio1 2"\<close> parses to the lookup entries
  (gpio0, 1), (gpio0, 3), (gpio0, 4), (gpio1, 2) with positions 0, 1, 2, 3 in that order;
  \<^verbatim>\<open>new_device_store\<close> publishes that table, and probing it gives a forwarder of 4
  lines whose handle at position \<open>i\<close> is the one acquired for the entry of position
  \<open>i\<close>.
\<close>

theorem new_device_gpio0_gpio1:
  "map (\<lambda>en. (key en, chip_hwnum en, idx en)) table_gpio0_gpio1 =
     [(''gpio0'', 1, 0), (''gpio0'', 3, 1), (''gpio0'', 4, 2), (''gpio1'', 2, 3)] \<and>
   aggr_parse env_ok \<lparr>lookups = \<lparr>dev_id = d, table = []\<rparr>, pdev = None,
                        args = ''gpio0 1,3-4 gpio1 2''\<rparr>
     = (0, \<lparr>lookups = \<lparr>dev_id = d, table = table_gpio0_gpio1\<rparr>, pdev = None,
             args = ''gpio0 1,3-4 gpio1 2''\<rparr>) \<and>
   new_device_store env_ok registry_empty ''gpio0 1,3-4 gpio1 2'' =
     (19, \<lparr>gpio_aggregator_idr =
             [(0, \<lparr>lookups = \<lparr>dev_id = Some 0, table = table_gpio0_gpio1\<rparr>, pdev = Some 0,
                   args = ''gpio0 1,3-4 gpio1 2''\<rparr>)],
           gpio_lookup_list = [\<lparr>dev_id = Some 0, table = table_gpio0_gpio1\<rparr>],
           platform_devices = [0]\<rparr>) \<and>
   gpio_aggregator_probe probe_env_ok (\<lambda>en. Inr (f en))
       \<lparr>dev_id = Some 0, table = table_gpio0_gpio1\<rparr> 0 =
     Some (Inr \<lparr>chip = \<lparr>ngpio = 4,
                         can_sleep = (\<exists>en\<in>set table_gpio0_gpio1. gpiod_cansleep (f en))\<rparr>,
                 descs = map (\<lambda>en. Some (f en)) table_gpio0_gpio1,
                 lock = (if \<exists>en\<in>set table_gpio0_gpio1. gpiod_cansleep (f en)
                         then Mutex_Init else Spinlock_Init),
                 delay_timings = None,
                 tmp_values = {},
                 tmp_descs = replicate 4 None\<rparr>)"
proof (intro conjI)
  show "map (\<lambda>en. (key en, chip_hwnum en, idx en)) table_gpio0_gpio1 =
     [(''gpio0'', 1, 0), (''gpio0'', 3, 1), (''gpio0'', 4, 2), (''gpio1'', 2, 3)]"
    by (simp add: table_gpio0_gpio1_def)
  show "aggr_parse env_ok \<lparr>lookups = \<lparr>dev_id = d, table = []\<rparr>, pdev = None,
                        args = ''gpio0 1,3-4 gpio1 2''\<rparr>
     = (0, \<lparr>lookups = \<lparr>dev_id = d, table = table_gpio0_gpio1\<rparr>, pdev = None,
             args = ''gpio0 1,3-4 gpio1 2''\<rparr>)"
    by (rule aggr_parse_gpio0_gpio1)
  show "new_device_store env_ok registry_empty ''gpio0 1,3-4 gpio1 2'' =
     (19, \<lparr>gpio_aggregator_idr =
             [(0, \<lparr>lookups = \<lparr>dev_id = Some 0, table = table_gpio0_gpio1\<rparr>, pdev = Some 0,
                   args = ''gpio0 1,3-4 gpio1 2''\<rparr>)],
           gpio_lookup_list = [\<lparr>dev_id = Some 0, table = table_gpio0_gpio1\<rparr>],
           platform_devices = [0]\<rparr>)"
    by (rule new_device_store_gpio0_gpio1)
  have ix: "\<forall>j<length (table \<lparr>dev_id = Some 0, table = table_gpio0_gpio1\<rparr>).
              idx (table \<lparr>dev_id = Some 0, table = table_gpio0_gpio1\<rparr> ! j) = j"
    by (simp add: table_gpio0_gpio1_def less_Suc_eq nth_Cons' numeral_eq_Suc)
  have len: "length table_gpio0_gpio1 = 4" by (simp add: table_gpio0_gpio1_def)
  show "gpio_aggregator_probe probe_env_ok (\<lambda>en. Inr (f en))
       \<lparr>dev_id = Some 0, table = table_gpio0_gpio1\<rparr> 0 =
     Some (Inr \<lparr>chip = \<lparr>ngpio = 4,
                         can_sleep = (\<exists>en\<in>set table_gpio0_gpio1. gpiod_cansleep (f en))\<rparr>,
                 descs = map (\<lambda>en. Some (f en)) table_gpio0_gpio1,
                 lock = (if \<exists>en\<in>set table_gpio0_gpio1. gpiod_cansleep (f en)
                         then Mutex_Init else Spinlock_Init),
                 delay_timings = None,
                 tmp_values = {},
                 tmp_descs = replicate 4 None\<rparr>)"
    using gpio_aggregator_probe_ok[OF ix, of f]
          gpio_fwd_create_ok[of "map f table_gpio0_gpio1"]
    by (simp add: len comp_def)
qed

section \<open>Label or list expression\<close>

text \<open>
  C6. When the parse loop holds a pending label and reads the next token, the token is
  taken as an offset list iff it is a list expression. If it is, its offsets are added
  under the pending label (or the parse error of the list is returned) and the token after
  it becomes the next label. If it is not, the pending label is added as one named line
  (hardware number \<^verbatim>\<open>U16_MAX\<close>, no offset) and the token itself becomes the pending
  label.
\<close>

theorem aggr_parse_loop_token:
  assumes "is_token tok" and "rest = [] \<or> isspace (hd rest)"
  shows "aggr_parse_loop e aggr name (tok @ rest) n =
     (if is_list_expression tok then
        (let pl = bitmap_parselist e tok AGGREGATOR_MAX_GPIOS in
         if fst pl \<noteq> 0 then (fst pl, aggr, n)
         else
           let r = aggr_add_gpios e aggr name (for_each_set_bit (snd pl) AGGREGATOR_MAX_GPIOS) n
           in if fst r \<noteq> 0 then r
              else aggr_parse_loop e (fst (snd r)) (fst (next_arg (skip_spaces rest)))
                     (snd (next_arg (skip_spaces rest))) (snd (snd r)))
      else if \<not> krealloc_ok e n then (- ENOMEM, aggr, n)
      else aggr_parse_loop e
             (aggr\<lparr>lookups := (lookups aggr)\<lparr>table :=
                take n (table (lookups aggr)) @ [\<lparr>key = name, chip_hwnum = U16_MAX, idx = n\<rparr>]\<rparr>\<rparr>)
             tok (skip_spaces rest) (n + 1))"
proof -
  have ne: "tok @ rest \<noteq> []" using assms(1) by (simp add: is_token_def)
  note na = next_arg_token[OF assms]
  show ?thesis
  proof (cases "is_list_expression tok")
    case True
    show ?thesis
      unfolding aggr_parse_loop_list[OF ne na True] Let_def using True by simp
  next
    case False
    show ?thesis
      unfolding aggr_parse_loop_named[OF ne na False] using False
      by (simp add: aggr_add_gpio_def ENOMEM_def)
  qed
qed

lemma gpio1_not_list: "\<not> is_list_expression ''gpio1''"
  by (simp add: is_list_expression_def parse_region_def isdigit_def Let_def)

lemma tok_simps: "is_token ''gpio1''" "is_token ''7''" "is_list_expression ''7''"
  "bitmap_parselist e ''7'' AGGREGATOR_MAX_GPIOS = (0, set [7])"
  by (simp_all add: is_token_def isspace_def is_list_expression_def parse_region_def isdigit_def
        Let_def bitmap_parselist_def strtoul_def digit_val_def AGGREGATOR_MAX_GPIOS_def)

lemma bits_7: "for_each_set_bit (set [7]) AGGREGATOR_MAX_GPIOS = [7]"
  by (rule for_each_set_bit_of_sorted; simp add: AGGREGATOR_MAX_GPIOS_def)

theorem aggr_parse_loop_token_witness:
  "is_token ''gpio1'' \<and> is_token ''7'' \<and>
   \<not> is_list_expression ''gpio1'' \<and> is_list_expression ''7'' \<and>
   aggr_parse_loop env_ok \<lparr>lookups = \<lparr>dev_id = None, table = []\<rparr>, pdev = None, args = []\<rparr>
       ''gpio0'' ''gpio1 7'' 0 =
     (0, \<lparr>lookups = \<lparr>dev_id = None,
                      table = [\<lparr>key = ''gpio0'', chip_hwnum = U16_MAX, idx = 0\<rparr>,
                               \<lparr>key = ''gpio1'', chip_hwnum = 7, idx = 1\<rparr>]\<rparr>,
           pdev = None, args = []\<rparr>, 2)"
proof -
  define A0 where "A0 = \<lparr>lookups = \<lparr>dev_id = None, table = []\<rparr>, pdev = None, args = ''''\<rparr>"
  define A1 where "A1 = \<lparr>lookups = \<lparr>dev_id = None,
       table = [\<lparr>key = ''gpio0'', chip_hwnum = U16_MAX, idx = 0\<rparr>]\<rparr>, pdev = None, args = ''''\<rparr>"
  define A2 where "A2 = \<lparr>lookups = \<lparr>dev_id = None,
                      table = [\<lparr>key = ''gpio0'', chip_hwnum = U16_MAX, idx = 0\<rparr>,
                               \<lparr>key = ''gpio1'', chip_hwnum = 7, idx = 1\<rparr>]\<rparr>,
           pdev = None, args = ''''\<rparr>"
  have r1: "'' 7'' = [] \<or> isspace (hd '' 7'')" by (simp add: isspace_def)
  have r2: "'''' = [] \<or> isspace (hd '''')" by simp
  have sk: "skip_spaces '' 7'' = ''7''" "skip_spaces [] = []"
    by (simp_all add: skip_spaces_def isspace_def)
  have add: "aggr_add_gpios env_ok A1 ''gpio1'' [7] 1 = (0, A2, 2)"
    by (simp add: aggr_add_gpio_def env_ok_simps A1_def A2_def)
  have s2: "aggr_parse_loop env_ok A1 ''gpio1'' ''7'' (Suc 0) = (0, A2, 2)"
    using aggr_parse_loop_token[OF tok_simps(2) r2, of env_ok A1 "''gpio1''" 1,
        unfolded append_Nil2 tok_simps(3) if_True tok_simps(4) Let_def fst_conv snd_conv bits_7
          add sk next_arg_Nil aggr_parse_loop_Nil]
    by (simp add: tok_simps(3))
  have s1: "aggr_parse_loop env_ok A0 ''gpio0'' ''gpio1 7'' 0 = (0, A2, 2)"
    using aggr_parse_loop_token[OF tok_simps(1) r1, of env_ok A0 "''gpio0''" 0]
    by (simp add: gpio1_not_list env_ok_simps sk A0_def A1_def[symmetric] s2)
  show ?thesis using tok_simps gpio1_not_list s1 by (simp add: A0_def A2_def)
qed

section \<open>Duplicate offsets\<close>









section \<open>The bound of 512\<close>













section \<open>A request without tokens\<close>

lemma no_tokens_skip: "list_all isspace buf \<Longrightarrow> skip_spaces buf = []"
  by (simp add: skip_spaces_def list_all_iff)

lemma aggr_parse_no_tokens:
  assumes "list_all isspace (args aggr)"
  shows "aggr_parse e aggr = (if bitmap_alloc_ok e then - EINVAL else - ENOMEM, aggr)"
  by (simp add: aggr_parse_def Let_def no_tokens_skip[OF assms] next_arg_Nil aggr_parse_loop_Nil)

text \<open>
  C7. For a request without tokens (the empty string, or spaces only),
  \<^verbatim>\<open>new_device_store\<close> returns an error and leaves the registry as it was: the id
  map, the published lookup tables and the platform devices are unchanged. The error is
  \<^verbatim>\<open>-EINVAL\<close> (no GPIOs specified) unless taking the module reference or an
  allocation fails first.
\<close>

theorem new_device_store_no_tokens:
  assumes "list_all isspace buf"
  shows "snd (new_device_store e reg buf) = reg \<and>
         fst (new_device_store e reg buf) \<in> {- ENOENT, - ENOMEM, - EINVAL} \<and>
         (try_module_get e \<and> kzalloc_aggr_ok e \<and> kzalloc_lookups_ok e \<and> idr_alloc_ok e \<and>
          kasprintf_ok e \<and> bitmap_alloc_ok e \<longrightarrow>
            fst (new_device_store e reg buf) = - EINVAL)"
proof -
  define aggr0 where
    "aggr0 = \<lparr>lookups = \<lparr>dev_id = None, table = []\<rparr>, pdev = None, args = buf\<rparr>"
  from idr_alloc_fresh[of "gpio_aggregator_idr reg" aggr0]
  obtain i where i: "i \<notin> fst ` set (gpio_aggregator_idr reg)"
    and al: "idr_alloc True (gpio_aggregator_idr reg) aggr0
             = (int i, (i, aggr0) # gpio_aggregator_idr reg)"
    by (elim exE conjE)
  have nal: "idr_alloc False (gpio_aggregator_idr reg) aggr0 = (- ENOMEM, gpio_aggregator_idr reg)"
    by (simp add: idr_alloc_def)
  have rm: "idr_remove ((i, aggr0) # gpio_aggregator_idr reg) i = gpio_aggregator_idr reg"
    by (rule idr_remove_fresh[OF i])
  have pr: "aggr_parse e (aggr0\<lparr>lookups := (lookups aggr0)\<lparr>dev_id := Some i\<rparr>\<rparr>) =
          (if bitmap_alloc_ok e then - EINVAL else - ENOMEM,
           aggr0\<lparr>lookups := (lookups aggr0)\<lparr>dev_id := Some i\<rparr>\<rparr>)"
    by (rule aggr_parse_no_tokens) (simp add: aggr0_def assms)
  show ?thesis
  proof (cases "idr_alloc_ok e")
    case True
    show ?thesis
      unfolding new_device_store_def Let_def aggr0_def[symmetric]
      using True by (simp add: al rm pr EINVAL_def ENOMEM_def ENOENT_def)
  next
    case False
    show ?thesis
      unfolding new_device_store_def Let_def aggr0_def[symmetric]
      using False by (simp add: nal EINVAL_def ENOMEM_def ENOENT_def)
  qed
qed

theorem new_device_store_no_tokens_witness:
  "list_all isspace [] \<and>
   new_device_store env_ok registry_empty [] = (- EINVAL, registry_empty) \<and>
   gpio_aggregator_idr (snd (new_device_store env_ok registry_empty [])) = [] \<and>
   platform_devices (snd (new_device_store env_ok registry_empty [])) = []"
proof -
  have h: "list_all isspace []" by simp
  note t = new_device_store_no_tokens[OF h, of env_ok registry_empty]
  have "snd (new_device_store env_ok registry_empty []) = registry_empty"
    using t by blast
  moreover have "fst (new_device_store env_ok registry_empty []) = - EINVAL"
    using t env_ok_simps by blast
  ultimately show ?thesis
    by (simp add: prod_eq_iff registry_empty_def)
qed

end
